theory Spec2Isabelle
  imports Complex_Main
begin

section \<open>The search tree of the MCTS engine\<close>

text \<open>
  The development follows \<^verbatim>\<open>src/sound_law/rl/TreeNode.h\<close> (the node classes and their
  member functions) and the Cython driver. Conventions of the embedding:
  \<^item> a \<^verbatim>\<open>float\<close> or \<^verbatim>\<open>double\<close> is the real number it stands for. The arithmetic of the
    statistics and of the scores (\<^verbatim>\<open>virtual_select\<close>, \<^verbatim>\<open>update_stats\<close>, \<^verbatim>\<open>get_scores\<close>) is the
    machine's: every operation is rounded once, to the nearest value of its format (IEEE
    754 binary32 and binary64, ties to even), in the format that the usual arithmetic
    conversions of C++ give it; no two operations are fused and none is carried out in a
    wider format. A result beyond the largest finite value, a division by
    zero and the square root of a negative number give an infinity or NaN in the code;
    they are error values of the model;
  \<^item> the prior vectors (\<^verbatim>\<open>normalize\<close>, \<^verbatim>\<open>gather_priors\<close>, \<^verbatim>\<open>add_noise\<close>) and the distance summed
    by \<^verbatim>\<open>common_init\<close> are followed in real arithmetic: the theorems about them concern zero
    divisors and which vector is stored where, not the last bit of a value;
  \<^item> \<^verbatim>\<open>visit_t\<close> and \<^verbatim>\<open>abc_t\<close> are declared in a header that is not part of the sources;
    \<^verbatim>\<open>visit_t\<close> is read as \<^verbatim>\<open>int\<close>, the type of \<^verbatim>\<open>game_count\<close>: 32 bits, and a sum or
    difference outside its range (undefined behaviour in the code) is an error value;
    symbols are natural numbers;
  \<^item> a pointer is an address into an explicit store, \<^verbatim>\<open>nullptr\<close> is \<open>None\<close>;
  \<^item> reading or writing a vector out of range, dereferencing a dangling pointer and a
    failed \<^verbatim>\<open>assert\<close> end the run: they are error values of the model;
  \<^item> the recursion of \<^verbatim>\<open>prune\<close> up the parent links carries fuel, and running out of it
    is an error value as well.
\<close>

type_synonym addr = nat
type_synonym abc_t = nat
type_synonym visit_t = int
type_synonym Affected = "(int \<times> nat) list"

datatype error =
    OutOfRange
  | NullPointer
  | AssertionFailed
  | DivisionByZero
  | NotANumber
  | Overflow
  | OutOfFuel

datatype node_kind = TreeNodeKind | MiniNodeKind | TransitionNodeKind

record node =
  kind :: node_kind
  stopped :: bool
  persistent :: bool
  permissible_chars :: "abc_t list"
  affected :: "Affected list"
  children :: "addr option list"
  parents :: "addr list"
  parent_indices :: "nat list"
  priors :: "real list"
  pruned :: "bool list"
  action_counts :: "visit_t list"
  total_values :: "real list"
  max_values :: "real list"
  visit_count :: visit_t
  max_index :: int
  max_value :: real
  num_unpruned_actions :: int
  words :: "addr list"
  node_dist :: real
  is_done :: bool
  meta_priors :: "real list list"
  special_priors :: "real list"

definition then_do :: "error + 'a \<Rightarrow> ('a \<Rightarrow> error + 'b) \<Rightarrow> error + 'b" where
  "then_do r f = (case r of Inl e \<Rightarrow> Inl e | Inr x \<Rightarrow> f x)"

subsection \<open>Machine arithmetic\<close>

text \<open>The two floating-point formats: the number of bits of the significand (the hidden bit
  included) and the largest exponent; the smallest exponent of a normal number is
  \<open>1 - max_exp\<close>.\<close>

datatype format = Single | Double

fun mant_bits :: "format \<Rightarrow> nat" where
  "mant_bits Single = 24"
| "mant_bits Double = 53"

fun max_exp :: "format \<Rightarrow> nat" where
  "max_exp Single = 127"
| "max_exp Double = 1023"

text \<open>The power of two at or below \<open>x\<close>, searched upwards from 1 for \<open>1 \<le> x\<close> and downwards for
  \<open>x < 1\<close>, and kept between the smallest and the largest exponent of the format: below the
  normal numbers the spacing of the values does not shrink any more.\<close>

fun binade_up :: "nat \<Rightarrow> real \<Rightarrow> real \<Rightarrow> real" where
  "binade_up 0 x lo = lo"
| "binade_up (Suc k) x lo = (if 2 * lo \<le> x then binade_up k x (2 * lo) else lo)"

fun binade_down :: "nat \<Rightarrow> real \<Rightarrow> real \<Rightarrow> real" where
  "binade_down 0 x lo = lo"
| "binade_down (Suc k) x lo = (if x < lo then binade_down k x (lo / 2) else lo)"

definition binade :: "format \<Rightarrow> real \<Rightarrow> real" where
  "binade f x = (if 1 \<le> \<bar>x\<bar> then binade_up (max_exp f) \<bar>x\<bar> 1
                 else binade_down (max_exp f - 1) \<bar>x\<bar> 1)"

text \<open>The distance between neighbouring values of the format around \<open>x\<close>.\<close>

definition quantum :: "format \<Rightarrow> real \<Rightarrow> real" where
  "quantum f x = binade f x / 2 ^ (mant_bits f - 1)"

text \<open>The nearest integer, the even one of two that are equally near.\<close>

definition round_even :: "real \<Rightarrow> int" where
  "round_even y =
     (let k = \<lfloor>y\<rfloor>
      in if y - of_int k < 1 / 2 then k
         else if 1 / 2 < y - of_int k then k + 1
         else if even k then k else k + 1)"

text \<open>Rounding to the format, and the result of an operation whose exact value is \<open>x\<close>.\<close>

definition rnd :: "format \<Rightarrow> real \<Rightarrow> real" where
  "rnd f x = quantum f x * of_int (round_even (x / quantum f x))"

definition largest :: "format \<Rightarrow> real" where
  "largest f = (2 ^ mant_bits f - 1) * 2 ^ max_exp f / 2 ^ (mant_bits f - 1)"

definition fl :: "format \<Rightarrow> real \<Rightarrow> error + real" where
  "fl f x = (if largest f < \<bar>rnd f x\<bar> then Inl Overflow else Inr (rnd f x))"

definition fl_div :: "format \<Rightarrow> real \<Rightarrow> real \<Rightarrow> error + real" where
  "fl_div f x y = (if y = 0 then Inl DivisionByZero else fl f (x / y))"



text \<open>A decimal literal of the source is a \<^verbatim>\<open>double\<close>; stored into a \<^verbatim>\<open>float\<close> it is rounded a
  second time.\<close>

definition narrow :: "real \<Rightarrow> real" where
  "narrow x = rnd Single (rnd Double x)"

text \<open>The result of an operation on \<^verbatim>\<open>int\<close> whose exact value is \<open>x\<close>.\<close>

definition fits_int :: "int \<Rightarrow> bool" where
  "fits_int x = (- (2 ^ 31) \<le> x \<and> x < 2 ^ 31)"

definition to_int :: "int \<Rightarrow> error + int" where
  "to_int x = (if fits_int x then Inr x else Inl Overflow)"

subsection \<open>Nodes and their statistics\<close>

text \<open>\<^verbatim>\<open>BaseNode::BaseNode(bool stopped, bool persistent)\<close>: the vectors start empty, the
  scalars at their in-class initialisers.\<close>

definition BaseNode :: "node_kind \<Rightarrow> bool \<Rightarrow> bool \<Rightarrow> node" where
  "BaseNode k st ps =
     \<lparr> kind = k, stopped = st, persistent = ps, permissible_chars = [], affected = [],
       children = [], parents = [], parent_indices = [], priors = [], pruned = [],
       action_counts = [], total_values = [], max_values = [], visit_count = 0,
       max_index = - 1, max_value = narrow (- 9999.9), num_unpruned_actions = - 1,
       words = [], node_dist = 0, is_done = False, meta_priors = [],
       special_priors = [] \<rparr>"

definition is_expanded :: "node \<Rightarrow> bool" where
  "is_expanded n = (length (permissible_chars n) > 0)"

definition is_evaluated :: "node \<Rightarrow> bool" where
  "is_evaluated n = (length (priors n) > 0)"


definition add_action :: "node \<Rightarrow> abc_t \<Rightarrow> Affected \<Rightarrow> node" where
  "add_action n action aff =
     n\<lparr> permissible_chars := permissible_chars n @ [action], affected := affected n @ [aff] \<rparr>"

definition init_stats :: "node \<Rightarrow> node" where
  "init_stats n =
     (let k = length (permissible_chars n) in
      n\<lparr> action_counts := replicate k 0, total_values := replicate k 0, visit_count := 0,
         max_index := - 1, max_value := narrow (- 9999.9),
         max_values := replicate k (narrow (- 9999.9)) \<rparr>)"

definition init_pruned :: "node \<Rightarrow> node" where
  "init_pruned n =
     (let k = length (permissible_chars n) in
      n\<lparr> num_unpruned_actions := int k, pruned := replicate k False \<rparr>)"

definition init_edges :: "node \<Rightarrow> node" where
  "init_edges n = n\<lparr> children := replicate (length (permissible_chars n)) None \<rparr>"

text \<open>\<^verbatim>\<open>BaseNode::virtual_select\<close>. In \<^verbatim>\<open>game_count * virtual_loss\<close> the count is converted to
  \<^verbatim>\<open>float\<close> first; the product and the difference are rounded one after the other.\<close>

definition virtual_select :: "node \<Rightarrow> nat \<Rightarrow> int \<Rightarrow> real \<Rightarrow> error + node" where
  "virtual_select n index game_count virtual_loss =
     (if length (action_counts n) \<le> index then Inl OutOfRange
      else then_do (to_int (action_counts n ! index + game_count)) (\<lambda>count.
        if length (total_values n) \<le> index then Inl OutOfRange
        else then_do (fl Single (real_of_int game_count)) (\<lambda>games.
             then_do (fl Single (games * virtual_loss)) (\<lambda>loss.
             then_do (fl Single (total_values n ! index - loss)) (\<lambda>total.
             then_do (to_int (visit_count n + game_count)) (\<lambda>visits.
             Inr (n\<lparr> action_counts := (action_counts n)[index := count],
                     total_values := (total_values n)[index := total],
                     visit_count := visits \<rparr>)))))))"

text \<open>\<^verbatim>\<open>BaseNode::update_stats\<close>. The value added to \<^verbatim>\<open>total_values[index]\<close> is the rounded sum of
  the rounded product and \<^verbatim>\<open>new_value\<close>.\<close>

definition update_stats :: "node \<Rightarrow> nat \<Rightarrow> real \<Rightarrow> int \<Rightarrow> real \<Rightarrow> error + node" where
  "update_stats n index new_value game_count virtual_loss =
     (if length (action_counts n) \<le> index then Inl OutOfRange
      else then_do (to_int (game_count - 1)) (\<lambda>others.
           then_do (to_int (action_counts n ! index - others)) (\<lambda>count.
        let n1 = n\<lparr> action_counts := (action_counts n)[index := count] \<rparr>
        in if action_counts n1 ! index < 1 then Inl AssertionFailed
        else
          let n2 = (if new_value > max_value n1
                    then n1\<lparr> max_value := new_value, max_index := int index \<rparr> else n1)
          in if length (max_values n2) \<le> index then Inl OutOfRange
          else
            let n3 = (if new_value > max_values n2 ! index
                      then n2\<lparr> max_values := (max_values n2)[index := new_value] \<rparr> else n2)
            in if length (total_values n3) \<le> index then Inl OutOfRange
            else then_do (fl Single (real_of_int game_count)) (\<lambda>games.
                 then_do (fl Single (games * virtual_loss)) (\<lambda>loss.
                 then_do (fl Single (loss + new_value)) (\<lambda>gain.
                 then_do (fl Single (total_values n3 ! index + gain)) (\<lambda>total.
                 then_do (to_int (visit_count n3 - others)) (\<lambda>visits.
                 Inr (n3\<lparr> total_values := (total_values n3)[index := total],
                          visit_count := visits \<rparr>)))))))))"


subsection \<open>Scoring\<close>


fun collect :: "(nat \<Rightarrow> 'e + 'a) \<Rightarrow> nat list \<Rightarrow> 'e + 'a list" where
  "collect f [] = Inr []"
| "collect f (i # rest) =
     (case f i of Inl e \<Rightarrow> Inl e
      | Inr x \<Rightarrow> (case collect f rest of Inl e \<Rightarrow> Inl e | Inr xs \<Rightarrow> Inr (x # xs)))"

text \<open>The mean-value term \<open>q\<close> of one child. The literal \<^verbatim>\<open>1e-8\<close> is a \<^verbatim>\<open>double\<close>, so the sum and
  the quotient of \<^verbatim>\<open>total_values[i] / (nsa + 1e-8)\<close> are computed in \<^verbatim>\<open>double\<close>, and the
  quotient is rounded again when it is stored into the \<^verbatim>\<open>float\<close> \<open>q\<close>.\<close>

definition q_divisor :: "node \<Rightarrow> nat \<Rightarrow> error + real" where
  "q_divisor n i =
     then_do (fl Single (real_of_int (action_counts n ! i))) (\<lambda>nsa.
     fl Double (nsa + rnd Double (1 / 10 ^ 8)))"

definition q_term :: "node \<Rightarrow> nat \<Rightarrow> error + real" where
  "q_term n i =
     then_do (q_divisor n i) (\<lambda>divisor.
     then_do (fl_div Double (total_values n ! i) divisor) (\<lambda>quotient.
     fl Single quotient))"






subsection \<open>Priors\<close>

text \<open>A division in the arithmetic of the priors. A zero divisor gives an infinity or NaN in
  the code, which no real number stands for: the model reports it.\<close>

definition fdiv :: "real \<Rightarrow> real \<Rightarrow> error + real" where
  "fdiv x y = (if y = 0 then Inl DivisionByZero else Inr (x / y))"

text \<open>The function \<^verbatim>\<open>normalize\<close> of the source.\<close>

definition normalize_priors :: "real list \<Rightarrow> error + real list" where
  "normalize_priors ps =
     (let sum = foldl (\<lambda>s prior. s + prior) (1 / 10 ^ 8) ps
      in collect (\<lambda>i. fdiv (ps ! i) sum) [0..<length ps])"

definition gather_priors :: "real list \<Rightarrow> abc_t list \<Rightarrow> error + real list" where
  "gather_priors vals indices =
     then_do (collect (\<lambda>k. if length vals \<le> indices ! k then Inl OutOfRange
                            else Inr (vals ! (indices ! k))) [0..<length indices])
       normalize_priors"

definition evaluate :: "node \<Rightarrow> real list list \<Rightarrow> real list \<Rightarrow> error + node" where
  "evaluate n new_meta_priors new_special_priors =
     (if \<not> is_expanded n then Inl AssertionFailed
      else if is_evaluated n then Inr n
      else if new_meta_priors = [] then Inl OutOfRange
      else then_do (gather_priors (new_meta_priors ! 0) (permissible_chars n)) (\<lambda>ps.
             Inr (n\<lparr> meta_priors := new_meta_priors, special_priors := new_special_priors,
                     priors := ps \<rparr>)))"

definition clear_priors :: "node \<Rightarrow> node" where
  "clear_priors n = n\<lparr> priors := [] \<rparr>"

definition dummy_evaluate :: "node \<Rightarrow> node" where
  "dummy_evaluate n = n\<lparr> priors := replicate (length (permissible_chars n)) 0 \<rparr>"

text \<open>The two loops of \<^verbatim>\<open>add_noise\<close>: position \<open>j\<close> of the noise is mixed into position \<open>j\<close> of
  the priors; noise longer than the priors writes out of range.\<close>

fun mix_vec :: "real list \<Rightarrow> real list \<Rightarrow> real \<Rightarrow> error + real list" where
  "mix_vec ps [] r = Inr ps"
| "mix_vec [] (x # xs) r = Inl OutOfRange"
| "mix_vec (p # ps) (x # xs) r =
     (case mix_vec ps xs r of Inl e \<Rightarrow> Inl e
      | Inr qs \<Rightarrow> Inr ((p * (1 - r) + x * r) # qs))"

fun mix_rows :: "real list list \<Rightarrow> real list list \<Rightarrow> real \<Rightarrow> error + real list list" where
  "mix_rows pss [] r = Inr pss"
| "mix_rows [] (xs # xss) r = (if xs = [] then mix_rows [] xss r else Inl OutOfRange)"
| "mix_rows (ps # pss) (xs # xss) r =
     (case mix_vec ps xs r of Inl e \<Rightarrow> Inl e
      | Inr qs \<Rightarrow> (case mix_rows pss xss r of Inl e \<Rightarrow> Inl e | Inr qss \<Rightarrow> Inr (qs # qss)))"

definition add_noise :: "node \<Rightarrow> real list list \<Rightarrow> real list \<Rightarrow> real \<Rightarrow> error + node" where
  "add_noise n meta_noise special_noise noise_ratio =
     then_do (mix_rows (meta_priors n) meta_noise noise_ratio) (\<lambda>new_meta_priors.
     then_do (mix_vec (special_priors n) special_noise noise_ratio) (\<lambda>new_special_priors.
     evaluate n new_meta_priors new_special_priors))"

text \<open>Scenario S2: two actions with equal priors, nothing visited yet.\<close>

definition s2_node :: node where
  "s2_node = (init_stats (init_pruned (init_edges
        (add_action (add_action (BaseNode MiniNodeKind False False) 3 [(0, 0)]) 5 [(0, 1)]))))
        \<lparr> priors := [0.5, 0.5] \<rparr>"


text \<open>The noise has the shape of the priors it is mixed into.\<close>

definition same_shape :: "real list list \<Rightarrow> real list list \<Rightarrow> bool" where
  "same_shape xss pss = (map length xss = map length pss)"

text \<open>An expanded tree node with the two actions 3 and 5, before and after its
  evaluation with the meta priors \<open>[0, 0, 0, 1/2, 0, 1/2]\<close>.\<close>

definition s5_node :: node where
  "s5_node = init_stats (init_pruned (init_edges
        (add_action (add_action (BaseNode TreeNodeKind False True) 3 [(0, 0)]) 5 [(0, 1)])))"

definition s5_evaluated :: node where
  "s5_evaluated = s5_node\<lparr> meta_priors := [[0, 0, 0, 1 / 2, 0, 1 / 2]], special_priors := [],
       priors := [1 / 2 / (1 / 10 ^ 8 + 1), 1 / 2 / (1 / 10 ^ 8 + 1)] \<rparr>"

subsection \<open>The store and the links between nodes\<close>

text \<open>Nodes live in a store; the address of a node is its position. A freed or never
  allocated address holds no node.\<close>

type_synonym heap = "node option list"

definition node_at :: "heap \<Rightarrow> addr \<Rightarrow> node option" where
  "node_at h a = (if a < length h then h ! a else None)"

definition store :: "heap \<Rightarrow> addr \<Rightarrow> node \<Rightarrow> heap" where
  "store h a n = h[a := Some n]"

fun foldM :: "(nat \<Rightarrow> 's \<Rightarrow> 'e + 's) \<Rightarrow> nat list \<Rightarrow> 's \<Rightarrow> 'e + 's" where
  "foldM f [] s = Inr s"
| "foldM f (i # rest) s = (case f i s of Inl e \<Rightarrow> Inl e | Inr s' \<Rightarrow> foldM f rest s')"

text \<open>\<^verbatim>\<open>BaseNode::connect(index, child)\<close>, called on the node at \<open>this\<close>.\<close>

definition connect :: "heap \<Rightarrow> addr \<Rightarrow> nat \<Rightarrow> addr \<Rightarrow> error + heap" where
  "connect h this index child =
     (case node_at h this of
        None \<Rightarrow> Inl NullPointer
      | Some n \<Rightarrow>
          if length (children n) \<le> index then Inl OutOfRange
          else if children n ! index \<noteq> None then Inr h
          else
            let h1 = store h this (n\<lparr> children := (children n)[index := Some child] \<rparr>)
            in (case node_at h1 child of
                  None \<Rightarrow> Inl NullPointer
                | Some c \<Rightarrow>
                    Inr (store h1 child
                           (c\<lparr> parents := parents c @ [this],
                               parent_indices := parent_indices c @ [index] \<rparr>))))"

text \<open>A parent with one free child slot and a fresh node to hang below it.\<close>

definition s9_parent :: node where
  "s9_parent = init_edges (add_action (BaseNode TreeNodeKind False True) 3 [])"

definition s9_child :: node where
  "s9_child = BaseNode MiniNodeKind False False"

subsection \<open>The Cython driver\<close>

text \<open>What the driver raises: Python exceptions, and C++ exceptions that Cython hands on.
  \<^verbatim>\<open>PAD_ID\<close> comes from a module that is not part of the sources and is a parameter.\<close>

datatype py_error = ValueError | IndexError | OverflowError | CppException

text \<open>A two-dimensional array of \<^verbatim>\<open>long\<close>: its shape and its rows. Indexing a typed
  memoryview checks the bounds.\<close>

record ndarray =
  shape0 :: nat
  shape1 :: nat
  rows :: "int list list"

definition wf_ndarray :: "ndarray \<Rightarrow> bool" where
  "wf_ndarray arr =
     (length (rows arr) = shape0 arr \<and> list_all (\<lambda>r. length r = shape1 arr) (rows arr))"

definition get_cell :: "ndarray \<Rightarrow> nat \<Rightarrow> nat \<Rightarrow> py_error + int" where
  "get_cell arr i j =
     (if shape0 arr \<le> i \<or> shape1 arr \<le> j then Inl IndexError else Inr (rows arr ! i ! j))"

definition set_cell :: "ndarray \<Rightarrow> nat \<Rightarrow> nat \<Rightarrow> int \<Rightarrow> py_error + ndarray" where
  "set_cell arr i j v =
     (if shape0 arr \<le> i \<or> shape1 arr \<le> j then Inl IndexError
      else Inr (arr\<lparr> rows := (rows arr)[i := (rows arr ! i)[j := v]] \<rparr>))"

definition np_full :: "nat \<Rightarrow> nat \<Rightarrow> int \<Rightarrow> ndarray" where
  "np_full n m v = \<lparr> shape0 = n, shape1 = m, rows = replicate n (replicate m v) \<rparr>"

definition np2vocab :: "ndarray \<Rightarrow> int list \<Rightarrow> int \<Rightarrow> py_error + int list list" where
  "np2vocab arr lengths n =
     (if n < 0 then Inl CppException
      else collect (\<lambda>i.
             if length lengths \<le> i then Inl IndexError
             else let m = lengths ! i
                  in if m < 0 then Inl CppException
                     else collect (\<lambda>j. get_cell arr i j) [0..<nat m])
           [0..<nat n])"

definition vocab2np :: "int \<Rightarrow> int list list \<Rightarrow> py_error + ndarray" where
  "vocab2np PAD_ID vocab_i =
     (let n = length vocab_i;
          m = fold (\<lambda>i m. max m (length (vocab_i ! i))) [0..<n] 0
      in foldM (\<lambda>i arr. foldM (\<lambda>j arr. set_cell arr i j (vocab_i ! i ! j))
                            [0..<length (vocab_i ! i)] arr)
           [0..<n] (np_full n m PAD_ID))"

record action =
  action_id :: int
  before_id :: int
  after_id :: int

text \<open>Modelled from the spec: the C++ class \<^verbatim>\<open>ActionSpace\<close> behind \<^verbatim>\<open>PyActionSpace\<close> is not part
  of the sources. The spec speaks of action ids in \<open>[0, action_space.size())\<close>; the space is
  the list of its registered actions, and the id of an action is its position.\<close>

type_synonym action_space = "action list"

definition as_size :: "action_space \<Rightarrow> int" where
  "as_size aspace = int (length aspace)"

definition as_get_action :: "action_space \<Rightarrow> int \<Rightarrow> action" where
  "as_get_action aspace i = aspace ! nat i"

text \<open>A Python integer passed for a parameter declared \<^verbatim>\<open>long\<close> is converted first.\<close>

definition fits_long :: "int \<Rightarrow> bool" where
  "fits_long x = (- (2 ^ 63) \<le> x \<and> x < 2 ^ 63)"

text \<open>\<^verbatim>\<open>PyActionSpace.get_action\<close>: the result, and the action space after the call.\<close>

definition get_action :: "action_space \<Rightarrow> int \<Rightarrow> (py_error + action) \<times> action_space" where
  "get_action aspace a_id =
     (if \<not> fits_long a_id then (Inl OverflowError, aspace)
      else if a_id \<ge> as_size aspace \<or> a_id < 0 then (Inl ValueError, aspace)
      else (Inr (as_get_action aspace a_id), aspace))"

text \<open>The tree node of the Cython driver: its vocabulary, its flags and its explored edges,
  each a next node and a reward.\<close>

record py_tree_node =
  vocab_i :: "int list list"
  dist_to_end :: int
  node_done :: bool
  edges :: "int \<rightharpoonup> (addr \<times> real)"

definition has_acted :: "py_tree_node \<Rightarrow> int \<Rightarrow> bool" where
  "has_acted node a_id = (edges node a_id \<noteq> None)"

definition get_py_edge :: "py_tree_node \<Rightarrow> addr \<times> real \<Rightarrow> addr \<times> bool \<times> real" where
  "get_py_edge node edge = (fst edge, node_done node, snd edge)"

text \<open>\<^verbatim>\<open>PyTreeNode.get_edge\<close>: the result, and the node after the call.\<close>

definition get_edge ::
  "py_tree_node \<Rightarrow> int \<Rightarrow> (py_error + addr \<times> bool \<times> real) \<times> py_tree_node" where
  "get_edge node a_id =
     (if \<not> fits_long a_id then (Inl OverflowError, node)
      else if has_acted node a_id
      then (case edges node a_id of
              Some edge \<Rightarrow> (Inr (get_py_edge node edge), node)
            | None \<Rightarrow> (Inl IndexError, node))
      else (Inl ValueError, node))"

subsection \<open>Tree nodes and the transposition table\<close>

text \<open>\<^verbatim>\<open>TreeNode::common_init\<close>. \<^verbatim>\<open>Word::get_edit_dist_at\<close> is not part of the sources: the edit
  distance of a word at an order is the parameter \<open>edit_dist\<close>.\<close>

definition common_init :: "(addr \<Rightarrow> nat \<Rightarrow> real) \<Rightarrow> node \<Rightarrow> addr list \<Rightarrow> node" where
  "common_init edit_dist n ws =
     (let n1 = n\<lparr> node_dist := fold (\<lambda>order d. d + edit_dist (ws ! order) order)
                                  [0..<length ws] (node_dist n) \<rparr>
      in if node_dist n1 = 0 then n1\<lparr> is_done := True \<rparr> else n1)"

text \<open>The two constructors of \<^verbatim>\<open>TreeNode\<close>: a persistent node, and a node with a given
  \<open>stopped\<close> flag.\<close>

definition TreeNode :: "(addr \<Rightarrow> nat \<Rightarrow> real) \<Rightarrow> addr list \<Rightarrow> node" where
  "TreeNode edit_dist ws =
     common_init edit_dist ((BaseNode TreeNodeKind False True)\<lparr> words := ws \<rparr>) ws"

definition TreeNode_stopped :: "(addr \<Rightarrow> nat \<Rightarrow> real) \<Rightarrow> addr list \<Rightarrow> bool \<Rightarrow> node" where
  "TreeNode_stopped edit_dist ws st =
     common_init edit_dist ((BaseNode TreeNodeKind st False)\<lparr> words := ws \<rparr>) ws"

definition disconnect_from_parents :: "heap \<Rightarrow> addr \<Rightarrow> error + heap" where
  "disconnect_from_parents h this =
     (case node_at h this of
        None \<Rightarrow> Inl NullPointer
      | Some n \<Rightarrow>
          then_do
            (foldM (\<lambda>i h.
                 if length (parent_indices n) \<le> i then Inl OutOfRange
                 else (case node_at h (parents n ! i) of
                         None \<Rightarrow> Inl NullPointer
                       | Some p \<Rightarrow>
                           if length (children p) \<le> parent_indices n ! i then Inl OutOfRange
                           else Inr (store h (parents n ! i)
                                  (p\<lparr> children := (children p)[parent_indices n ! i := None] \<rparr>))))
               [0..<length (parents n)] h)
            (\<lambda>h'. case node_at h' this of
                     None \<Rightarrow> Inl NullPointer
                   | Some n' \<Rightarrow> Inr (store h' this (n'\<lparr> parents := [], parent_indices := [] \<rparr>))))"

definition disconnect_from_children :: "heap \<Rightarrow> addr \<Rightarrow> error + heap" where
  "disconnect_from_children h this =
     (case node_at h this of
        None \<Rightarrow> Inl NullPointer
      | Some n0 \<Rightarrow>
          foldM (\<lambda>i h.
              case node_at h this of
                None \<Rightarrow> Inl NullPointer
              | Some n \<Rightarrow>
                  (case children n ! i of
                     None \<Rightarrow> Inr h
                   | Some child \<Rightarrow>
                       (case node_at h child of
                          None \<Rightarrow> Inl NullPointer
                        | Some c \<Rightarrow>
                            let index = length (takeWhile (\<lambda>p. p \<noteq> this) (parents c))
                            in if index = length (parents c) then Inl AssertionFailed
                               else if length (parent_indices c) \<le> index then Inl OutOfRange
                               else
                                 let h1 = store h child
                                       (c\<lparr> parents := take index (parents c)
                                                          @ drop (Suc index) (parents c),
                                           parent_indices := take index (parent_indices c)
                                                          @ drop (Suc index) (parent_indices c) \<rparr>)
                                 in (case node_at h1 this of
                                       None \<Rightarrow> Inl NullPointer
                                     | Some n1 \<Rightarrow>
                                         Inr (store h1 this
                                                (n1\<lparr> children := (children n1)[i := None] \<rparr>))))))
            [0..<length (children n0)] h)"

text \<open>\<^verbatim>\<open>delete node\<close>: the destructor \<^verbatim>\<open>BaseNode::~BaseNode\<close> unlinks the node, then its address
  is free.\<close>

definition delete_node :: "heap \<Rightarrow> addr \<Rightarrow> error + heap" where
  "delete_node h a =
     then_do (disconnect_from_parents h a) (\<lambda>h1.
     then_do (disconnect_from_children h1 a) (\<lambda>h2.
     Inr (h2[a := None])))"

text \<open>Modelled from the spec: the class \<^verbatim>\<open>Trie\<close> behind \<^verbatim>\<open>TreeNode::t_table\<close> is not part of the
  sources. The spec describes a table keyed on the sequence of word identities whose
  \<open>get_or_insert(words)\<close> returns the existing canonical node and otherwise enters the
  candidate, and whose \<open>size()\<close> is the number of canonical nodes. \<open>trie_get t key value\<close> is
  the call \<^verbatim>\<open>t.get(key, value)\<close>: whether the key was there, the value left in the reference
  argument, and the table afterwards.\<close>

type_synonym trie = "(addr list \<times> addr) list"

definition trie_get :: "trie \<Rightarrow> addr list \<Rightarrow> addr \<Rightarrow> bool \<times> addr \<times> trie" where
  "trie_get t key v =
     (case map_of t key of
        Some found \<Rightarrow> (True, found, t)
      | None \<Rightarrow> (False, v, t @ [(key, v)]))"

definition trie_size :: "trie \<Rightarrow> nat" where
  "trie_size t = length t"

text \<open>The store together with the static transposition table.\<close>

record mcts_state =
  nodes :: heap
  t_table :: trie

definition get_tree_node ::
  "(addr \<Rightarrow> nat \<Rightarrow> real) \<Rightarrow> mcts_state \<Rightarrow> addr list \<Rightarrow> error + addr \<times> mcts_state" where
  "get_tree_node edit_dist s ws =
     (let new_node = length (nodes s);
          h1 = nodes s @ [Some (TreeNode edit_dist ws)]
      in case trie_get (t_table s) ws new_node of
           (found, ret, t') \<Rightarrow>
             if found
             then then_do (delete_node h1 new_node) (\<lambda>h2. Inr (ret, \<lparr> nodes = h2, t_table = t' \<rparr>))
             else Inr (ret, \<lparr> nodes = h1, t_table = t' \<rparr>))"

definition get_tree_node_stopped ::
  "(addr \<Rightarrow> nat \<Rightarrow> real) \<Rightarrow> mcts_state \<Rightarrow> addr list \<Rightarrow> bool \<Rightarrow> error + addr \<times> mcts_state" where
  "get_tree_node_stopped edit_dist s ws st =
     (let new_node = length (nodes s);
          h1 = nodes s @ [Some (TreeNode_stopped edit_dist ws st)]
      in case trie_get (t_table s) ws new_node of
           (found, ret, t') \<Rightarrow>
             if found
             then then_do (delete_node h1 new_node) (\<lambda>h2. Inr (ret, \<lparr> nodes = h2, t_table = t' \<rparr>))
             else Inr (ret, \<lparr> nodes = h1, t_table = t' \<rparr>))"

text \<open>A run of calls of either overload, in order.\<close>

fun get_tree_nodes ::
  "(addr \<Rightarrow> nat \<Rightarrow> real) \<Rightarrow> mcts_state \<Rightarrow> (addr list \<times> bool option) list \<Rightarrow> error + mcts_state"
  where
  "get_tree_nodes edit_dist s [] = Inr s"
| "get_tree_nodes edit_dist s ((ws, None) # calls) =
     then_do (get_tree_node edit_dist s ws) (\<lambda>(p, s'). get_tree_nodes edit_dist s' calls)"
| "get_tree_nodes edit_dist s ((ws, Some st) # calls) =
     then_do (get_tree_node_stopped edit_dist s ws st) (\<lambda>(p, s'). get_tree_nodes edit_dist s' calls)"

text \<open>The state before any node is made.\<close>

definition fresh_state :: mcts_state where
  "fresh_state = \<lparr> nodes = [], t_table = [] \<rparr>"

subsection \<open>Pruning\<close>




























section \<open>Machine arithmetic\<close>

lemma then_do_Inr: "then_do (Inr x) g = g x"
  by (simp add: then_do_def)


text \<open>A computation is evaluated from its first step on.\<close>

lemma then_do_weak_cong: "r = r' \<Longrightarrow> then_do r g = then_do r' g"
  by simp

lemma then_do_if: "then_do (if c then r else r') g = (if c then then_do r g else then_do r' g)"
  by simp

subsection \<open>Evaluating a rounding\<close>

lemma binade_up_numeral:
  "binade_up (numeral k) x lo = (if 2 * lo \<le> x then binade_up (pred_numeral k) x (2 * lo) else lo)"
  by (simp add: numeral_eq_Suc)

lemma binade_down_numeral:
  "binade_down (numeral k) x lo = (if x < lo then binade_down (pred_numeral k) x (lo / 2) else lo)"
  by (simp add: numeral_eq_Suc)

lemmas rnd_eval = rnd_def quantum_def binade_def round_even_def binade_up_numeral
  binade_down_numeral Let_def largest_def

lemma rnd_zero: "rnd f 0 = 0"
  by (simp add: rnd_def round_even_def)

lemma fl_zero: "fl f 0 = Inr 0"
  by (cases f) (simp_all add: fl_def rnd_zero largest_def)

lemma narrow_lowest: "narrow (- 9999.9) = - 5119949 / 512"
  by (simp add: narrow_def rnd_eval)

lemma double_1e8: "rnd Double (1 / 10 ^ 8) = 3022314549036573 / 2 ^ 78"
  by (simp add: rnd_eval)

subsection \<open>Bounds of a rounded value\<close>

lemma binade_up_pos: "0 < lo \<Longrightarrow> 0 < binade_up k x lo"
  by (induction k arbitrary: lo) simp_all

lemma binade_down_pos: "0 < lo \<Longrightarrow> 0 < binade_down k x lo"
  by (induction k arbitrary: lo) simp_all

lemma binade_pos: "0 < binade f x"
  by (simp add: binade_def binade_up_pos binade_down_pos)

lemma quantum_pos: "0 < quantum f x"
  by (simp add: quantum_def binade_pos)

lemma binade_up_le: "lo \<le> x \<Longrightarrow> binade_up k x lo \<le> x"
  by (induction k arbitrary: lo) simp_all

lemma binade_down_le: "lo / 2 ^ k \<le> x \<Longrightarrow> binade_down k x lo \<le> x"
proof (induction k arbitrary: lo)
  case 0
  then show ?case by simp
next
  case (Suc k)
  from Suc.prems have "lo / 2 / 2 ^ k \<le> x" by (simp add: field_simps)
  from Suc.IH [OF this] show ?case by simp
qed

text \<open>From the smallest normal number on, the binade of \<open>x\<close> is at or below \<open>x\<close>.\<close>

lemma binade_le: "2 / 2 ^ max_exp f \<le> \<bar>x\<bar> \<Longrightarrow> binade f x \<le> \<bar>x\<bar>"
proof -
  assume a: "2 / 2 ^ max_exp f \<le> \<bar>x\<bar>"
  have "0 < max_exp f" by (cases f) simp_all
  then have "(2::real) ^ max_exp f = 2 * 2 ^ (max_exp f - 1)" by (cases "max_exp f") simp_all
  with a have "1 / 2 ^ (max_exp f - 1) \<le> \<bar>x\<bar>" by simp
  then show ?thesis by (simp add: binade_def binade_up_le binade_down_le)
qed

lemma binade_up_pow: "\<exists>j. binade_up k x lo = lo * 2 ^ j"
proof (induction k arbitrary: lo)
  case 0
  show ?case by (rule exI [of _ 0]) simp
next
  case (Suc k)
  show ?case
  proof (cases "2 * lo \<le> x")
    case True
    from Suc.IH [of "2 * lo"] obtain j where "binade_up k x (2 * lo) = 2 * lo * 2 ^ j" ..
    with True have "binade_up (Suc k) x lo = lo * 2 ^ Suc j" by simp
    then show ?thesis ..
  next
    case False
    then have "binade_up (Suc k) x lo = lo * 2 ^ 0" by simp
    then show ?thesis ..
  qed
qed

lemma binade_down_pow: "\<exists>j. binade_down k x lo = lo / 2 ^ j"
proof (induction k arbitrary: lo)
  case 0
  show ?case by (rule exI [of _ 0]) simp
next
  case (Suc k)
  show ?case
  proof (cases "x < lo")
    case True
    from Suc.IH [of "lo / 2"] obtain j where "binade_down k x (lo / 2) = lo / 2 / 2 ^ j" ..
    with True have "binade_down (Suc k) x lo = lo / 2 ^ Suc j" by simp
    then show ?thesis ..
  next
    case False
    then have "binade_down (Suc k) x lo = lo / 2 ^ 0" by simp
    then show ?thesis ..
  qed
qed

lemma floor_le_round_even: "\<lfloor>y\<rfloor> \<le> round_even y"
  by (simp add: round_even_def Let_def)

lemma round_even_le_ceiling: "round_even y \<le> \<lceil>y\<rceil>"
proof -
  have "y \<noteq> of_int \<lfloor>y\<rfloor> \<Longrightarrow> \<lceil>y\<rceil> = \<lfloor>y\<rfloor> + 1"
    by (metis ceiling_altdef of_int_floor_cancel)
  moreover have "y = of_int \<lfloor>y\<rfloor> \<Longrightarrow> round_even y = \<lfloor>y\<rfloor>"
    by (simp add: round_even_def Let_def)
  ultimately show ?thesis
    using floor_le_ceiling [of y] by (cases "y = of_int \<lfloor>y\<rfloor>") (auto simp: round_even_def Let_def)
qed

lemma round_even_ge: "of_int m \<le> y \<Longrightarrow> m \<le> round_even y"
  using floor_le_round_even [of y] by (simp add: le_floor_iff order_trans [of m "\<lfloor>y\<rfloor>"])

lemma round_even_le: "y \<le> of_int m \<Longrightarrow> round_even y \<le> m"
  using round_even_le_ceiling [of y] by (simp add: ceiling_le_iff order_trans [of _ "\<lceil>y\<rceil>" m])

lemma rnd_nonneg: "0 \<le> x \<Longrightarrow> 0 \<le> rnd f x"
proof -
  assume "0 \<le> x"
  with quantum_pos [of f x] have "of_int 0 \<le> x / quantum f x" by simp
  then have "0 \<le> round_even (x / quantum f x)" by (rule round_even_ge)
  with quantum_pos [of f x] show ?thesis by (simp add: rnd_def)
qed

text \<open>A normal number is not rounded below its binade, so not to zero.\<close>

lemma rnd_ge_binade:
  assumes "2 / 2 ^ max_exp f \<le> x"
  shows "binade f x \<le> rnd f x"
proof -
  have "0 < (2::real) / 2 ^ max_exp f" by simp
  with assms have x: "0 < x" by linarith
  with assms have "binade f x \<le> x" using binade_le [of f x] by simp
  then have "of_int (2 ^ (mant_bits f - 1)) \<le> x / quantum f x"
    using binade_pos [of f x] by (simp add: quantum_def field_simps)
  then have "2 ^ (mant_bits f - 1) \<le> round_even (x / quantum f x)" by (rule round_even_ge)
  then have "(2::real) ^ (mant_bits f - 1) \<le> of_int (round_even (x / quantum f x))"
    by (metis of_int_le_iff of_int_numeral of_int_power)
  then have "quantum f x * 2 ^ (mant_bits f - 1) \<le> rnd f x"
    unfolding rnd_def using quantum_pos [of f x] by simp
  then show ?thesis by (simp add: quantum_def)
qed

lemma rnd_pos: "2 / 2 ^ max_exp f \<le> x \<Longrightarrow> 0 < rnd f x"
  using rnd_ge_binade [of f x] binade_pos [of f x] by simp

text \<open>Rounding does not cross a power of two.\<close>

lemma rnd_le_pow2:
  assumes "0 \<le> x" and "x \<le> 2 ^ m"
  shows "rnd f x \<le> 2 ^ m"
proof -
  have "\<exists>M::int. (2::real) ^ m / quantum f x = of_int M"
  proof (cases "1 \<le> \<bar>x\<bar>")
    case True
    then have b: "binade f x = binade_up (max_exp f) \<bar>x\<bar> 1" by (simp add: binade_def)
    from binade_up_pow [of "max_exp f" "\<bar>x\<bar>" 1] obtain j where j: "binade f x = 2 ^ j"
      unfolding b by auto
    from True have "binade f x \<le> \<bar>x\<bar>" unfolding b by (simp add: binade_up_le)
    with assms(1) j have "(2::real) ^ j \<le> x" by simp
    from this assms(2) have "(2::real) ^ j \<le> 2 ^ m" by (rule order_trans)
    then have "j \<le> m" by simp
    then have "(2::real) ^ m = 2 ^ (m - j) * 2 ^ j" by (simp flip: power_add)
    then have "(2::real) ^ m / quantum f x = of_int (2 ^ (m - j) * 2 ^ (mant_bits f - 1))"
      by (simp add: quantum_def j)
    then show ?thesis ..
  next
    case False
    then have b: "binade f x = binade_down (max_exp f - 1) \<bar>x\<bar> 1" by (simp add: binade_def)
    from binade_down_pow [of "max_exp f - 1" "\<bar>x\<bar>" 1] obtain j where j: "binade f x = 1 / 2 ^ j"
      unfolding b by auto
    have "(2::real) ^ m / quantum f x = of_int (2 ^ m * 2 ^ j * 2 ^ (mant_bits f - 1))"
      by (simp add: quantum_def j)
    then show ?thesis ..
  qed
  then obtain M :: int where M: "(2::real) ^ m / quantum f x = of_int M" ..
  from assms(2) quantum_pos [of f x] have "x / quantum f x \<le> 2 ^ m / quantum f x"
    by (simp add: divide_right_mono)
  then have "round_even (x / quantum f x) \<le> M" unfolding M by (rule round_even_le)
  then have "of_int (round_even (x / quantum f x)) \<le> (2::real) ^ m / quantum f x"
    unfolding M by simp
  then show ?thesis
    unfolding rnd_def using quantum_pos [of f x] by (simp add: field_simps)
qed

lemma largest_ge: "m \<le> max_exp f \<Longrightarrow> 2 ^ m \<le> largest f"
proof -
  assume m: "m \<le> max_exp f"
  have "(2::real) ^ (mant_bits f - 1) \<le> 2 ^ mant_bits f - 1"
    by (cases f) simp_all
  then have "(1::real) \<le> (2 ^ mant_bits f - 1) / 2 ^ (mant_bits f - 1)" by simp
  moreover from m have "(2::real) ^ m \<le> 2 ^ max_exp f" by simp
  ultimately have "(2::real) ^ m * 1 \<le> 2 ^ max_exp f * ((2 ^ mant_bits f - 1) / 2 ^ (mant_bits f - 1))"
    by (intro mult_mono) simp_all
  then show ?thesis by (simp add: largest_def mult.commute)
qed

lemma fl_bounded:
  assumes "0 \<le> x" and "x \<le> 2 ^ m" and "m \<le> max_exp f"
  shows "fl f x = Inr (rnd f x)"
proof -
  from rnd_nonneg [OF assms(1), of f] rnd_le_pow2 [OF assms(1,2), of f] largest_ge [OF assms(3)]
  have "\<bar>rnd f x\<bar> \<le> largest f" by simp
  then show ?thesis by (simp add: fl_def)
qed

text \<open>A count that is not negative becomes a \<^verbatim>\<open>float\<close> between 0 and \<open>2^31\<close>.\<close>

lemma fl_count:
  assumes "0 \<le> c" and "fits_int c"
  shows "fl Single (real_of_int c) = Inr (rnd Single (real_of_int c))"
    and "0 \<le> rnd Single (real_of_int c)" and "rnd Single (real_of_int c) \<le> 2 ^ 31"
proof -
  from assms have b: "0 \<le> real_of_int c" "real_of_int c \<le> 2 ^ 31"
    by (simp_all add: fits_int_def)
  from fl_bounded [OF b] show "fl Single (real_of_int c) = Inr (rnd Single (real_of_int c))" by simp
  from rnd_nonneg [OF b(1)] show "0 \<le> rnd Single (real_of_int c)" .
  from rnd_le_pow2 [OF b] show "rnd Single (real_of_int c) \<le> 2 ^ 31" .
qed

text \<open>The divisor of the \<open>q\<close> term: the count as a \<^verbatim>\<open>float\<close> plus \<^verbatim>\<open>1e-8\<close>, in \<^verbatim>\<open>double\<close>.\<close>

lemma q_sum_pos:
  assumes "0 \<le> nsa"
  shows "0 < rnd Double (nsa + rnd Double (1 / 10 ^ 8))"
proof -
  have "(2::real) / 2 ^ max_exp Double \<le> 3022314549036573 / 2 ^ 78" by simp
  with assms have "2 / 2 ^ max_exp Double \<le> nsa + rnd Double (1 / 10 ^ 8)"
    unfolding double_1e8 by linarith
  then show ?thesis by (rule rnd_pos)
qed

lemma q_divisor_pos:
  assumes "0 \<le> action_counts n ! i" and "fits_int (action_counts n ! i)"
  shows "\<exists>d. q_divisor n i = Inr d \<and> 0 < d"
proof -
  let ?nsa = "rnd Single (real_of_int (action_counts n ! i))"
  note c = fl_count [OF assms]
  have "rnd Double (1 / 10 ^ 8) \<le> (1::real)" unfolding double_1e8 by simp
  with c(3) have "?nsa + rnd Double (1 / 10 ^ 8) \<le> 2 ^ 32" by simp
  moreover from c(2) have "0 \<le> ?nsa + rnd Double (1 / 10 ^ 8)" unfolding double_1e8 by simp
  ultimately have "fl Double (?nsa + rnd Double (1 / 10 ^ 8))
      = Inr (rnd Double (?nsa + rnd Double (1 / 10 ^ 8)))"
    by (intro fl_bounded [where m = 32]) simp_all
  with c(1) q_sum_pos [OF c(2)] show ?thesis
    by (simp add: q_divisor_def then_do_Inr)
qed

section \<open>Virtual loss and backup\<close>





text \<open>The operations of scenario S3: none of them rounds.\<close>

lemma s3_values:
  "fl Single (real_of_int 3) = Inr 3" "fl Single (3 * (5 / 10)) = Inr (3 / 2)"
  "fl Single (0 - 3 / 2) = Inr (- (3 / 2))" "fl Single (3 / 2 + 2) = Inr (7 / 2)"
  "fl Single (- (3 / 2) + 7 / 2) = Inr 2"
  by (simp_all add: fl_def rnd_eval)

text \<open>
  Claim C2 (scenario S3). A fresh node with one action, its statistics initialised, is
  selected at index 0 with \<open>game_count = 3\<close> and \<open>virtual_loss = 0.5\<close> and then backed up with
  \<open>V = 2\<close>. The counts end at 1, \<open>max_value\<close> at 2 and \<open>max_index\<close> at 0; the virtual loss
  \<open>3 \<cdot> 0.5\<close> that the selection subtracted is given back by the backup, so
  \<open>total_values[0]\<close> ends at \<open>V = 2\<close>, not at \<open>3.5\<close>. No operation of the scenario rounds.
\<close>

theorem s3_round_trip:
  "map_sum id (\<lambda>n'. (action_counts n', visit_count n', total_values n', max_value n', max_index n'))
     (then_do (virtual_select (init_stats (init_pruned (init_edges
                  (add_action (BaseNode k st ps) c aff)))) 0 3 0.5)
        (\<lambda>m. update_stats m 0 2 3 0.5))
   = Inr ([1], 1, [2], 2, 0)"
  using s3_values
  by (simp add: then_do_def virtual_select_def update_stats_def init_stats_def init_pruned_def
      init_edges_def add_action_def BaseNode_def to_int_def fits_int_def narrow_lowest Let_def)

text \<open>
  Claim C2, as stated, fails in one value: at the end of the scenario \<open>total_values[0]\<close> is 2
  and not 3.5.
\<close>

theorem s3_total_value_counterexample:
  "map_sum id (\<lambda>n'. total_values n' ! 0)
     (then_do (virtual_select (init_stats (init_pruned (init_edges
                  (add_action (BaseNode MiniNodeKind False False) 0 [])))) 0 3 0.5)
        (\<lambda>m. update_stats m 0 2 3 0.5))
   = Inr 2
   \<and> map_sum id (\<lambda>n'. total_values n' ! 0)
     (then_do (virtual_select (init_stats (init_pruned (init_edges
                  (add_action (BaseNode MiniNodeKind False False) 0 [])))) 0 3 0.5)
        (\<lambda>m. update_stats m 0 2 3 0.5))
   \<noteq> Inr 3.5"
  using s3_values
  by (simp add: then_do_def virtual_select_def update_stats_def init_stats_def init_pruned_def
      init_edges_def add_action_def BaseNode_def to_int_def fits_int_def narrow_lowest Let_def)

section \<open>Scoring and selection\<close>

lemma collect_map: "(\<And>i. i \<in> set js \<Longrightarrow> f i = Inr (g i)) \<Longrightarrow> collect f js = Inr (map g js)"
  by (induction js) simp_all




subsection \<open>One operation of a computation that does not overflow\<close>








lemma s2_node_fields:
  "permissible_chars s2_node = [3, 5]" "priors s2_node = [0.5, 0.5]"
  "pruned s2_node = [False, False]" "action_counts s2_node = [0, 0]"
  "total_values s2_node = [0, 0]" "visit_count s2_node = 0"
  "affected s2_node = [[(0, 0)], [(0, 1)]]" "children s2_node = [None, None]"
  "max_values s2_node = [narrow (- 9999.9), narrow (- 9999.9)]" "stopped s2_node = False"
  "kind s2_node = MiniNodeKind"
  by (simp_all add: s2_node_def init_stats_def init_pruned_def init_edges_def add_action_def
      BaseNode_def Let_def)






section \<open>Priors and noise\<close>

lemma foldl_add_sum_list: "foldl (\<lambda>s prior. s + prior) a ps = a + sum_list ps" for a :: real
  by (induction ps arbitrary: a) (simp_all add: add.assoc)

lemma normalize_eq:
  assumes "1 / 10 ^ 8 + sum_list ps \<noteq> 0"
  shows "normalize_priors ps = Inr (map (\<lambda>p. p / (1 / 10 ^ 8 + sum_list ps)) ps)"
proof -
  have "collect (\<lambda>i. fdiv (ps ! i) (1 / 10 ^ 8 + sum_list ps)) [0..<length ps]
      = Inr (map (\<lambda>i. ps ! i / (1 / 10 ^ 8 + sum_list ps)) [0..<length ps])"
    using assms by (intro collect_map) (simp add: fdiv_def)
  also have "map (\<lambda>i. ps ! i / (1 / 10 ^ 8 + sum_list ps)) [0..<length ps]
      = map (\<lambda>p. p / (1 / 10 ^ 8 + sum_list ps)) (map (\<lambda>i. ps ! i) [0..<length ps])"
    by (simp add: comp_def)
  finally show ?thesis by (simp add: normalize_priors_def foldl_add_sum_list Let_def map_nth)
qed

lemma sum_list_nonneg_real: "\<forall>p\<in>set ps. 0 \<le> p \<Longrightarrow> 0 \<le> sum_list ps" for ps :: "real list"
  by (induction ps) simp_all

lemma normalize_nonneg:
  assumes "\<forall>p\<in>set ps. 0 \<le> p"
  shows "1 / 10 ^ 8 + sum_list ps \<noteq> 0"
    and "normalize_priors ps = Inr (map (\<lambda>p. p / (1 / 10 ^ 8 + sum_list ps)) ps)"
proof -
  from sum_list_nonneg_real [OF assms] have "0 < 1 / 10 ^ 8 + sum_list ps" by simp
  then show nz: "1 / 10 ^ 8 + sum_list ps \<noteq> 0" by simp
  from normalize_eq [OF nz] show "normalize_priors ps = Inr (map (\<lambda>p. p / (1 / 10 ^ 8 + sum_list ps)) ps)" .
qed

lemma gather_collect:
  assumes "\<forall>c\<in>set indices. c < length vals"
  shows "collect (\<lambda>k. if length vals \<le> indices ! k then Inl OutOfRange
                            else Inr (vals ! (indices ! k))) [0..<length indices]
         = Inr (map (\<lambda>c. vals ! c) indices)"
proof -
  have "collect (\<lambda>k. if length vals \<le> indices ! k then Inl OutOfRange
                            else Inr (vals ! (indices ! k))) [0..<length indices]
         = Inr (map (\<lambda>k. vals ! (indices ! k)) [0..<length indices])"
    using assms by (intro collect_map) (simp add: not_le [symmetric])
  also have "map (\<lambda>k. vals ! (indices ! k)) [0..<length indices] = map (\<lambda>c. vals ! c) (map (\<lambda>k. indices ! k) [0..<length indices])"
    by (simp add: comp_def)
  finally show ?thesis by (simp add: map_nth)
qed

lemma gather_priors_eq:
  assumes "\<forall>c\<in>set indices. c < length vals"
  shows "gather_priors vals indices = normalize_priors (map (\<lambda>c. vals ! c) indices)"
  by (simp add: gather_priors_def gather_collect [OF assms] then_do_def)

text \<open>
  Claim C10, as stated, fails: \<open>normalize\<close> divides by the sum started at \<open>1e-8\<close>, and a
  vector whose entries add up to \<open>-1e-8\<close> makes that divisor zero.
\<close>

theorem normalize_divisor_counterexample:
  "normalize_priors [- (1 / 10 ^ 8)] = Inl DivisionByZero"
  by (simp add: normalize_priors_def fdiv_def)

text \<open>
  Claim C10, amended. For prior values that are not negative, the divisor of \<open>normalize\<close>
  (and so of \<open>gather_priors\<close>, for indices in range) is not zero; gathering from an all-zero
  vector gives all-zero priors, whose sum is 0; and the divisor of the \<open>q\<close> term of
  \<open>get_scores\<close>, the count as a \<^verbatim>\<open>float\<close> plus \<^verbatim>\<open>1e-8\<close> in \<^verbatim>\<open>double\<close>, is positive when the
  action count is not negative, so that the \<open>q\<close> term does not divide by zero.
\<close>

theorem prior_divisors_nonzero:
  assumes "list_all (\<lambda>v. 0 \<le> v) vals" and "list_all (\<lambda>c. c < length vals) indices"
    and "0 \<le> action_counts n ! i" and "fits_int (action_counts n ! i)"
  shows "normalize_priors vals = Inr (map (\<lambda>p. p / (1 / 10 ^ 8 + sum_list vals)) vals)
     \<and> 1 / 10 ^ 8 + sum_list vals \<noteq> 0
     \<and> gather_priors vals indices
         = Inr (map (\<lambda>c. vals ! c / (1 / 10 ^ 8 + sum_list (map (\<lambda>c. vals ! c) indices))) indices)
     \<and> 1 / 10 ^ 8 + sum_list (map (\<lambda>c. vals ! c) indices) \<noteq> 0
     \<and> gather_priors (replicate (length vals) 0) indices = Inr (replicate (length indices) 0)
     \<and> sum_list (replicate (length indices) (0::real)) = 0
     \<and> (\<exists>d. q_divisor n i = Inr d \<and> 0 < d)
     \<and> q_term n i \<noteq> Inl DivisionByZero"
proof -
  from assms(1,2) have nonneg: "\<forall>v\<in>set vals. 0 \<le> v" and idx: "\<forall>c\<in>set indices. c < length vals"
    by (simp_all add: list_all_iff)
  have g: "\<forall>p\<in>set (map (\<lambda>c. vals ! c) indices). 0 \<le> p"
    using nonneg idx by auto
  have z: "\<forall>c\<in>set indices. c < length (replicate (length vals) (0::real))"
    using idx by simp
  have zmap: "map (\<lambda>c. replicate (length vals) (0::real) ! c) indices = replicate (length indices) 0"
    using idx by (induction indices) simp_all
  have zsum: "sum_list (replicate (length indices) (0::real)) = 0" by (simp add: sum_list_replicate)
  have zero: "gather_priors (replicate (length vals) 0) indices = Inr (replicate (length indices) 0)"
    unfolding gather_priors_eq [OF z] zmap
    by (subst normalize_eq) (simp_all add: zsum)
  from q_divisor_pos [OF assms(3,4)] obtain d where d: "q_divisor n i = Inr d" "0 < d"
    by blast
  then have q: "q_term n i \<noteq> Inl DivisionByZero"
    by (simp add: q_term_def then_do_def fl_div_def fl_def split: sum.splits)
  from d have qd: "\<exists>d. q_divisor n i = Inr d \<and> 0 < d" by blast
  from normalize_nonneg [OF nonneg] normalize_nonneg [OF g] gather_priors_eq [OF idx] zero zsum
  have "normalize_priors vals = Inr (map (\<lambda>p. p / (1 / 10 ^ 8 + sum_list vals)) vals)
     \<and> 1 / 10 ^ 8 + sum_list vals \<noteq> 0
     \<and> gather_priors vals indices
         = Inr (map (\<lambda>c. vals ! c / (1 / 10 ^ 8 + sum_list (map (\<lambda>c. vals ! c) indices))) indices)
     \<and> 1 / 10 ^ 8 + sum_list (map (\<lambda>c. vals ! c) indices) \<noteq> 0
     \<and> gather_priors (replicate (length vals) 0) indices = Inr (replicate (length indices) 0)
     \<and> sum_list (replicate (length indices) (0::real)) = 0"
    by (simp add: comp_def)
  with qd q show ?thesis by blast
qed


theorem prior_divisors_nonzero_witness:
  "list_all (\<lambda>v. 0 \<le> v) [1, 3 :: real] \<and> list_all (\<lambda>c. c < length [1, 3 :: real]) [1, 0]
   \<and> 0 \<le> action_counts s2_node ! 0 \<and> fits_int (action_counts s2_node ! 0)
   \<and> gather_priors [1, 3] [1, 0] = Inr [3 / (1 / 10 ^ 8 + 4), 1 / (1 / 10 ^ 8 + 4)]
   \<and> gather_priors [0, 0] [1, 0] = Inr [0, 0]
   \<and> q_divisor s2_node 0 = Inr (3022314549036573 / 2 ^ 78)
   \<and> q_term s2_node 0 = Inr 0"
proof -
  have h: "list_all (\<lambda>v. 0 \<le> v) [1, 3 :: real]" "list_all (\<lambda>c. c < length [1, 3 :: real]) [1, 0]"
    "0 \<le> action_counts s2_node ! 0" "fits_int (action_counts s2_node ! 0)"
    by (simp_all add: s2_node_fields fits_int_def)
  have d: "q_divisor s2_node 0 = Inr (3022314549036573 / 2 ^ 78)"
    by (simp add: q_divisor_def s2_node_fields fl_def then_do_Inr rnd_eval cong: then_do_weak_cong)
  then have q: "q_term s2_node 0 = Inr 0"
    by (simp add: q_term_def s2_node_fields fl_div_def fl_zero then_do_Inr cong: then_do_weak_cong)
  from prior_divisors_nonzero [OF h] have
    "gather_priors [1, 3] [1, 0] = Inr [3 / (1 / 10 ^ 8 + 4), 1 / (1 / 10 ^ 8 + 4)]"
    "gather_priors [0, 0] [1, 0] = Inr [0, 0]"
    using h by (simp_all add: numeral_2_eq_2)
  with h d q show ?thesis by blast
qed

lemma mix_vec_same_length:
  "length xs = length ps \<Longrightarrow> mix_vec ps xs r = Inr (map2 (\<lambda>p x. p * (1 - r) + x * r) ps xs)"
  by (induction ps xs r rule: mix_vec.induct) simp_all

lemma mix_rows_same_shape:
  "length xss = length pss \<Longrightarrow> \<forall>i<length xss. length (xss ! i) = length (pss ! i) \<Longrightarrow>
   mix_rows pss xss r = Inr (map2 (map2 (\<lambda>p x. p * (1 - r) + x * r)) pss xss)"
proof (induction pss xss r rule: mix_rows.induct)
  case (3 ps pss xs xss r)
  from "3.prems"(2) have "length xs = length ps" by auto
  moreover from "3.prems" have "\<forall>i<length xss. length (xss ! i) = length (pss ! i)" by auto
  ultimately show ?case using 3 by (simp add: mix_vec_same_length)
qed simp_all

lemma same_shapeD:
  assumes "same_shape xss pss"
  shows "length xss = length pss" and "\<forall>i<length xss. length (xss ! i) = length (pss ! i)"
proof -
  from assms have e: "map length xss = map length pss" by (simp add: same_shape_def)
  then show l: "length xss = length pss" by (metis length_map)
  show "\<forall>i<length xss. length (xss ! i) = length (pss ! i)"
  proof (intro allI impI)
    fix i assume "i < length xss"
    with l have "map length xss ! i = length (xss ! i)" "map length pss ! i = length (pss ! i)" by simp_all
    with e show "length (xss ! i) = length (pss ! i)" by simp
  qed
qed

text \<open>
  Claim C5, amended. On an expanded node whose priors were cleared, \<open>add_noise\<close> with noise
  of the priors' shape stores the mixed priors \<open>(1 - r) \<cdot> prior + r \<cdot> noise\<close> and gathers
  the node's priors from the first mixed row. On a node that is still evaluated it
  changes nothing: \<open>evaluate\<close> returns at once.
\<close>

theorem add_noise_after_clear_priors:
  assumes "is_expanded n" and "same_shape meta_noise (meta_priors n)"
    and "length special_noise = length (special_priors n)" and "meta_priors n \<noteq> []"
  shows "add_noise (clear_priors n) meta_noise special_noise r
       = then_do (gather_priors
                    (map2 (\<lambda>p x. p * (1 - r) + x * r) (meta_priors n ! 0) (meta_noise ! 0))
                    (permissible_chars n))
           (\<lambda>ps. Inr (n\<lparr> meta_priors :=
                            map2 (map2 (\<lambda>p x. p * (1 - r) + x * r)) (meta_priors n) meta_noise,
                          special_priors :=
                            map2 (\<lambda>p x. p * (1 - r) + x * r) (special_priors n) special_noise,
                          priors := ps \<rparr>))
     \<and> (if is_evaluated n then add_noise n meta_noise special_noise r = Inr n
        else add_noise n meta_noise special_noise r
               = add_noise (clear_priors n) meta_noise special_noise r)"
proof -
  let ?mix = "\<lambda>p x. p * (1 - r) + x * r"
  define M where "M = map2 (map2 ?mix) (meta_priors n) meta_noise"
  define S where "S = map2 ?mix (special_priors n) special_noise"
  from same_shapeD [OF assms(2)] have rows: "mix_rows (meta_priors n) meta_noise r = Inr M"
    and len: "length meta_noise = length (meta_priors n)"
    by (simp_all add: mix_rows_same_shape M_def)
  from assms(3) have vec: "mix_vec (special_priors n) special_noise r = Inr S"
    unfolding S_def by (rule mix_vec_same_length)
  from assms(4) len have ne: "M \<noteq> []"
    unfolding M_def by (cases "meta_priors n"; cases meta_noise) simp_all
  from assms(4) len have hd: "M ! 0 = map2 ?mix (meta_priors n ! 0) (meta_noise ! 0)"
    unfolding M_def by (cases "meta_priors n"; cases meta_noise) simp_all
  have cl: "meta_priors (clear_priors n) = meta_priors n"
    "special_priors (clear_priors n) = special_priors n"
    "\<not> is_evaluated (clear_priors n)" "is_expanded (clear_priors n)"
    "permissible_chars (clear_priors n) = permissible_chars n"
    using assms(1) by (simp_all add: clear_priors_def is_evaluated_def is_expanded_def)
  have upd: "\<And>ps. clear_priors n\<lparr> meta_priors := M, special_priors := S, priors := ps \<rparr>
      = n\<lparr> meta_priors := M, special_priors := S, priors := ps \<rparr>"
    by (simp add: clear_priors_def)
  have "add_noise (clear_priors n) meta_noise special_noise r = evaluate (clear_priors n) M S"
    by (simp add: add_noise_def cl rows vec then_do_def)
  also have "\<dots> = then_do (gather_priors (M ! 0) (permissible_chars n))
           (\<lambda>ps. Inr (n\<lparr> meta_priors := M, special_priors := S, priors := ps \<rparr>))"
    by (simp add: evaluate_def cl ne upd)
  finally have a: "add_noise (clear_priors n) meta_noise special_noise r
       = then_do (gather_priors (map2 ?mix (meta_priors n ! 0) (meta_noise ! 0)) (permissible_chars n))
           (\<lambda>ps. Inr (n\<lparr> meta_priors := M, special_priors := S, priors := ps \<rparr>))"
    by (simp only: hd)
  have b: "is_evaluated n \<Longrightarrow> add_noise n meta_noise special_noise r = Inr n"
    using assms(1) by (simp add: add_noise_def rows vec then_do_def evaluate_def)
  have c: "\<not> is_evaluated n \<Longrightarrow> clear_priors n = n"
    by (simp add: is_evaluated_def clear_priors_def)
  have d: "if is_evaluated n then add_noise n meta_noise special_noise r = Inr n
        else add_noise n meta_noise special_noise r
               = add_noise (clear_priors n) meta_noise special_noise r"
    using b c by simp
  from a [unfolded M_def S_def] d show ?thesis by (rule conjI)
qed


lemma s5_node_fields:
  "permissible_chars s5_node = [3, 5]" "priors s5_node = []" "meta_priors s5_node = []"
  "special_priors s5_node = []"
  by (simp_all add: s5_node_def init_stats_def init_pruned_def init_edges_def add_action_def
      BaseNode_def Let_def)

lemma s5_evaluated_fields:
  "permissible_chars s5_evaluated = [3, 5]"
  "priors s5_evaluated = [1 / 2 / (1 / 10 ^ 8 + 1), 1 / 2 / (1 / 10 ^ 8 + 1)]"
  "meta_priors s5_evaluated = [[0, 0, 0, 1 / 2, 0, 1 / 2]]"
  "special_priors s5_evaluated = []"
  by (simp_all add: s5_evaluated_def s5_node_fields)

lemma s5_evaluate: "evaluate s5_node [[0, 0, 0, 1 / 2, 0, 1 / 2]] [] = Inr s5_evaluated"
  by (simp add: evaluate_def is_expanded_def is_evaluated_def s5_node_fields gather_priors_def
      normalize_priors_def fdiv_def then_do_def s5_evaluated_def)

text \<open>
  Claim C5, as stated, fails: on the evaluated node \<open>s5_evaluated\<close>, \<open>add_noise\<close> returns the
  node as it was, with the priors gathered before the noise, although gathering from the
  mixed priors gives other values.
\<close>

theorem add_noise_evaluated_counterexample:
  "evaluate s5_node [[0, 0, 0, 1 / 2, 0, 1 / 2]] [] = Inr s5_evaluated
   \<and> add_noise s5_evaluated [[0, 0, 0, 1, 0, 0]] [] (1 / 2) = Inr s5_evaluated
   \<and> priors s5_evaluated = [1 / 2 / (1 / 10 ^ 8 + 1), 1 / 2 / (1 / 10 ^ 8 + 1)]
   \<and> mix_rows (meta_priors s5_evaluated) [[0, 0, 0, 1, 0, 0]] (1 / 2)
       = Inr [[0, 0, 0, 3 / 4, 0, 1 / 4]]
   \<and> gather_priors [0, 0, 0, 3 / 4, 0, 1 / 4] (permissible_chars s5_evaluated)
       = Inr [3 / 4 / (1 / 10 ^ 8 + 1), 1 / 4 / (1 / 10 ^ 8 + 1)]
   \<and> gather_priors [0, 0, 0, 3 / 4, 0, 1 / 4] (permissible_chars s5_evaluated)
       \<noteq> Inr (priors s5_evaluated)"
proof (intro conjI)
  show "evaluate s5_node [[0, 0, 0, 1 / 2, 0, 1 / 2]] [] = Inr s5_evaluated"
    by (rule s5_evaluate)
  show "add_noise s5_evaluated [[0, 0, 0, 1, 0, 0]] [] (1 / 2) = Inr s5_evaluated"
    by (simp add: add_noise_def evaluate_def is_expanded_def is_evaluated_def
        s5_evaluated_fields then_do_def)
  show "priors s5_evaluated = [1 / 2 / (1 / 10 ^ 8 + 1), 1 / 2 / (1 / 10 ^ 8 + 1)]"
    by (simp add: s5_evaluated_fields)
  show "mix_rows (meta_priors s5_evaluated) [[0, 0, 0, 1, 0, 0]] (1 / 2)
       = Inr [[0, 0, 0, 3 / 4, 0, 1 / 4]]"
    by (simp add: s5_evaluated_fields)
  show g: "gather_priors [0, 0, 0, 3 / 4, 0, 1 / 4] (permissible_chars s5_evaluated)
       = Inr [3 / 4 / (1 / 10 ^ 8 + 1), 1 / 4 / (1 / 10 ^ 8 + 1)]"
    by (simp add: s5_evaluated_fields gather_priors_def normalize_priors_def fdiv_def then_do_def)
  show "gather_priors [0, 0, 0, 3 / 4, 0, 1 / 4] (permissible_chars s5_evaluated)
       \<noteq> Inr (priors s5_evaluated)"
    unfolding g by (simp add: s5_evaluated_fields)
qed

theorem add_noise_after_clear_priors_witness:
  "is_expanded s5_evaluated \<and> same_shape [[0, 0, 0, 1, 0, 0]] (meta_priors s5_evaluated)
   \<and> length ([] :: real list) = length (special_priors s5_evaluated)
   \<and> meta_priors s5_evaluated \<noteq> []
   \<and> add_noise (clear_priors s5_evaluated) [[0, 0, 0, 1, 0, 0]] [] (1 / 2)
       = Inr (s5_evaluated\<lparr> meta_priors := [[0, 0, 0, 3 / 4, 0, 1 / 4]], special_priors := [],
                priors := [3 / 4 / (1 / 10 ^ 8 + 1), 1 / 4 / (1 / 10 ^ 8 + 1)] \<rparr>)
   \<and> add_noise s5_evaluated [[0, 0, 0, 1, 0, 0]] [] (1 / 2) = Inr s5_evaluated"
proof -
  have h: "is_expanded s5_evaluated" "same_shape [[0, 0, 0, 1, 0, 0]] (meta_priors s5_evaluated)"
    "length ([] :: real list) = length (special_priors s5_evaluated)"
    "meta_priors s5_evaluated \<noteq> []"
    by (simp_all add: is_expanded_def same_shape_def s5_evaluated_fields)
  have e: "is_evaluated s5_evaluated" by (simp add: is_evaluated_def s5_evaluated_fields)
  have g: "gather_priors [0, 0, 0, 3 / 4, 0, 1 / 4] [3, 5]
       = Inr [3 / 4 / (1 / 10 ^ 8 + 1), 1 / 4 / (1 / 10 ^ 8 + 1)]"
    by (simp add: gather_priors_def normalize_priors_def fdiv_def then_do_def)
  from add_noise_after_clear_priors [OF h, of "1 / 2"] h e g show ?thesis
    by (simp add: s5_evaluated_fields then_do_def)
qed

section \<open>Links between nodes\<close>

lemma node_at_store: "a < length h \<Longrightarrow> node_at (store h a n) b = (if b = a then Some n else node_at h b)"
  by (simp add: node_at_def store_def)

lemma node_at_SomeD: "node_at h a = Some n \<Longrightarrow> a < length h"
  by (simp add: node_at_def split: if_splits)

text \<open>
  Claim C9. For a node at \<open>this\<close>, an index within its \<open>children\<close> and a live \<open>child\<close>:
  when the slot is taken, \<open>connect\<close> leaves the store as it is; when it is free,
  \<open>connect\<close> puts \<open>child\<close> into the slot and appends \<open>this\<close> to the child's \<open>parents\<close> and
  \<open>index\<close> to its \<open>parent_indices\<close>, one entry each, so the two stay equally long; no other
  node changes.
\<close>

theorem connect_frame:
  assumes "node_at h this = Some n" and "index < length (children n)"
    and "node_at h child = Some c"
  shows "if children n ! index \<noteq> None then connect h this index child = Inr h
     else (\<exists>h' n' c'. connect h this index child = Inr h'
            \<and> node_at h' this = Some n' \<and> node_at h' child = Some c'
            \<and> children n' = (children n)[index := Some child]
            \<and> parents c' = parents c @ [this]
            \<and> parent_indices c' = parent_indices c @ [index]
            \<and> length (parents c') = Suc (length (parents c))
            \<and> length (parent_indices c') = Suc (length (parent_indices c))
            \<and> (length (parents c) = length (parent_indices c)
                 \<longrightarrow> length (parents c') = length (parent_indices c'))
            \<and> (\<forall>a. a \<noteq> this \<and> a \<noteq> child \<longrightarrow> node_at h' a = node_at h a))"
proof (cases "children n ! index \<noteq> None")
  case True
  with assms show ?thesis by (simp add: connect_def)
next
  case False
  from assms have lt: "this < length h" "child < length h" by (auto dest: node_at_SomeD)
  show ?thesis
  proof (cases "child = this")
    case True
    with assms have "c = n" by simp
    with True False assms lt show ?thesis
      by (simp add: connect_def node_at_store Let_def) (simp add: store_def node_at_def)
  next
    case neq: False
    with False assms lt show ?thesis
      by (simp add: connect_def node_at_store Let_def) (simp add: store_def node_at_def)
  qed
qed


theorem connect_frame_witness:
  "node_at [Some s9_parent, Some s9_child] 0 = Some s9_parent
   \<and> 0 < length (children s9_parent)
   \<and> node_at [Some s9_parent, Some s9_child] 1 = Some s9_child
   \<and> children s9_parent ! 0 = None
   \<and> (\<exists>h' n' c'. connect [Some s9_parent, Some s9_child] 0 0 1 = Inr h'
         \<and> node_at h' 0 = Some n' \<and> node_at h' 1 = Some c'
         \<and> children n' = [Some 1] \<and> parents c' = [0] \<and> parent_indices c' = [0])"
proof -
  have h: "node_at [Some s9_parent, Some s9_child] 0 = Some s9_parent"
    "0 < length (children s9_parent)"
    "node_at [Some s9_parent, Some s9_child] 1 = Some s9_child"
    by (simp_all add: node_at_def s9_parent_def init_edges_def add_action_def BaseNode_def)
  have f: "children s9_parent = [None]" "parents s9_child = []" "parent_indices s9_child = []"
    by (simp_all add: s9_parent_def s9_child_def init_edges_def add_action_def BaseNode_def)
  from connect_frame [OF h] h f show ?thesis by simp blast
qed

section \<open>The Cython driver: arrays, actions and edges\<close>

lemma foldM_append:
  "foldM f (xs @ ys) s = (case foldM f xs s of Inl e \<Rightarrow> Inl e | Inr s' \<Rightarrow> foldM f ys s')"
  by (induction xs arbitrary: s) (simp_all split: sum.splits)

lemma fold_max_upto:
  "k \<le> length v \<Longrightarrow> \<forall>i<k. length (v ! i) \<le> fold (\<lambda>i m. max m (length (v ! i))) [0..<k] 0"
proof (induction k)
  case 0 then show ?case by simp
next
  case (Suc k)
  then have "\<forall>i<k. length (v ! i) \<le> fold (\<lambda>i m. max m (length (v ! i))) [0..<k] 0" by simp
  then show ?case by (auto simp: less_Suc_eq max_def)
qed

lemma fill_row:
  assumes "i < shape0 arr" "length (rows arr) = shape0 arr" "length (rows arr ! i) = shape1 arr"
    and "k \<le> length s" "length s \<le> shape1 arr"
  shows "foldM (\<lambda>j arr. set_cell arr i j (s ! j)) [0..<k] arr
     = Inr (arr\<lparr> rows := (rows arr)[i := take k s @ drop k (rows arr ! i)] \<rparr>)"
  using assms(4)
proof (induction k)
  case 0
  then show ?case by simp
next
  case (Suc k)
  then have k: "k < length s" "k \<le> length s" by simp_all
  from k assms have kk: "k < shape1 arr" "k < length (rows arr ! i)" by simp_all
  have "(take k s @ drop k (rows arr ! i))[k := s ! k] = take (Suc k) s @ drop (Suc k) (rows arr ! i)"
    using k kk by (simp add: take_Suc_conv_app_nth list_update_append upd_conv_take_nth_drop)
  with Suc.IH [OF k(2)] assms(1,2) kk show ?case
    by (simp add: foldM_append set_cell_def)
qed


lemma fill_rows:
  assumes "\<forall>i<length v. length (v ! i) \<le> m" and "k \<le> length v"
  shows "foldM (\<lambda>i arr. foldM (\<lambda>j arr. set_cell arr i j (v ! i ! j)) [0..<length (v ! i)] arr)
           [0..<k] (np_full (length v) m P)
       = Inr \<lparr> shape0 = length v, shape1 = m,
               rows = map (\<lambda>s. s @ replicate (m - length s) P) (take k v)
                        @ replicate (length v - k) (replicate m P) \<rparr>"
  using assms(2)
proof (induction k)
  case 0
  then show ?case by (simp add: np_full_def)
next
  case (Suc k)
  let ?pad = "\<lambda>s. s @ replicate (m - length s) P"
  let ?a = "\<lparr> shape0 = length v, shape1 = m,
               rows = map ?pad (take k v) @ replicate (length v - k) (replicate m P) \<rparr>"
  from Suc.prems have k: "k < length v" "k \<le> length v" by simp_all
  from k assms(1) have len: "length (v ! k) \<le> m" by simp
  from k have rowk: "rows ?a ! k = replicate m P" by (simp add: nth_append)
  from k have rep: "replicate (length v - k) (replicate m P)
      = replicate m P # replicate (length v - Suc k) (replicate m P)"
    by (cases "length v - k") (simp_all add: Suc_diff_Suc)
  have "foldM (\<lambda>j arr. set_cell arr k j (v ! k ! j)) [0..<length (v ! k)] ?a
      = Inr (?a\<lparr> rows := (rows ?a)[k := take (length (v ! k)) (v ! k) @ drop (length (v ! k)) (rows ?a ! k)] \<rparr>)"
    using k len by (intro fill_row) (simp_all add: nth_append)
  also have "(rows ?a)[k := take (length (v ! k)) (v ! k) @ drop (length (v ! k)) (rows ?a ! k)]
      = map ?pad (take (Suc k) v) @ replicate (length v - Suc k) (replicate m P)"
    unfolding rowk using k
    by (simp add: rep list_update_append take_Suc_conv_app_nth)
  finally have step: "foldM (\<lambda>j arr. set_cell arr k j (v ! k ! j)) [0..<length (v ! k)] ?a
      = Inr \<lparr> shape0 = length v, shape1 = m,
               rows = map ?pad (take (Suc k) v) @ replicate (length v - Suc k) (replicate m P) \<rparr>"
    by simp
  from Suc.IH [OF k(2)] step show ?case
    by (simp add: foldM_append)
qed

lemma vocab2np_eq:
  "vocab2np P v = Inr \<lparr> shape0 = length v,
       shape1 = fold (\<lambda>i m. max m (length (v ! i))) [0..<length v] 0,
       rows = map (\<lambda>s. s @ replicate (fold (\<lambda>i m. max m (length (v ! i))) [0..<length v] 0 - length s) P) v \<rparr>"
  using fill_rows [OF fold_max_upto [OF order_refl] order_refl, of v P]
  by (simp add: vocab2np_def Let_def)

lemma map_nth_take: "k \<le> length xs \<Longrightarrow> map (\<lambda>j. xs ! j) [0..<k] = take k xs"
  by (simp add: list_eq_iff_nth_eq)

lemma np2vocab_eq:
  assumes "wf_ndarray arr" and "length lengths = shape0 arr"
    and "list_all (\<lambda>l. 0 \<le> l \<and> l \<le> int (shape1 arr)) lengths"
  shows "np2vocab arr lengths (int (shape0 arr))
       = Inr (map (\<lambda>i. take (nat (lengths ! i)) (rows arr ! i)) [0..<shape0 arr])"
proof -
  have row: "collect (\<lambda>j. get_cell arr i j) [0..<nat (lengths ! i)]
      = Inr (take (nat (lengths ! i)) (rows arr ! i))" if i: "i < shape0 arr" for i
  proof -
    from assms i have l: "nat (lengths ! i) \<le> shape1 arr" and r: "length (rows arr ! i) = shape1 arr"
      by (auto simp add: list_all_length wf_ndarray_def)
    have "collect (\<lambda>j. get_cell arr i j) [0..<nat (lengths ! i)]
        = Inr (map (\<lambda>j. rows arr ! i ! j) [0..<nat (lengths ! i)])"
      using i l by (intro collect_map) (simp add: get_cell_def)
    also have "map (\<lambda>j. rows arr ! i ! j) [0..<nat (lengths ! i)] = take (nat (lengths ! i)) (rows arr ! i)"
      using l r by (intro map_nth_take) simp
    finally show ?thesis .
  qed
  have "collect (\<lambda>i. if length lengths \<le> i then Inl IndexError
             else let m = lengths ! i
                  in if m < 0 then Inl CppException
                     else collect (\<lambda>j. get_cell arr i j) [0..<nat m]) [0..<shape0 arr]
      = Inr (map (\<lambda>i. take (nat (lengths ! i)) (rows arr ! i)) [0..<shape0 arr])"
    using assms(2,3) by (intro collect_map) (auto simp add: row list_all_length Let_def not_less)
  then show ?thesis by (simp add: np2vocab_def)
qed


lemma vocab2np_cells:
  "\<exists>out. vocab2np P v = Inr out \<and> shape0 out = length v \<and> wf_ndarray out
     \<and> (\<forall>i<length v. length (v ! i) \<le> shape1 out
          \<and> (\<forall>j<shape1 out. rows out ! i ! j = (if j < length (v ! i) then v ! i ! j else P)))"
proof -
  define m where "m = fold (\<lambda>i m. max m (length (v ! i))) [0..<length v] 0"
  define out where "out = \<lparr> shape0 = length v, shape1 = m,
       rows = map (\<lambda>s. s @ replicate (m - length s) P) v \<rparr>"
  have mx: "length (v ! i) \<le> m" if "i < length v" for i
    using fold_max_upto [OF order_refl, of v] that unfolding m_def by blast
  have row: "rows out ! i = v ! i @ replicate (m - length (v ! i)) P" if "i < length v" for i
    using that by (simp add: out_def)
  have sh: "shape0 out = length v" "shape1 out = m" "length (rows out) = length v"
    by (simp_all add: out_def)
  have wf: "wf_ndarray out"
    unfolding wf_ndarray_def list_all_length sh
    using mx by (simp add: row)
  have cells: "\<forall>i<length v. length (v ! i) \<le> shape1 out
          \<and> (\<forall>j<shape1 out. rows out ! i ! j = (if j < length (v ! i) then v ! i ! j else P))"
    unfolding sh using mx by (auto simp add: row nth_append)
  have "vocab2np P v = Inr out" unfolding out_def m_def by (rule vocab2np_eq)
  with sh(1) wf cells show ?thesis by blast
qed

text \<open>
  Claim C7. For an \<open>[N, M]\<close> array and \<open>N\<close> lengths between 0 and \<open>M\<close>, \<open>np2vocab\<close> followed by
  \<open>vocab2np\<close> returns an \<open>[N, M']\<close> array whose row \<open>i\<close> holds the original values in its first
  \<open>lengths[i]\<close> cells and \<open>PAD_ID\<close> in all others, with \<open>M'\<close> at least every length.
\<close>

theorem np2vocab_vocab2np_round_trip:
  assumes "wf_ndarray arr" and "length lengths = shape0 arr"
    and "list_all (\<lambda>l. 0 \<le> l \<and> l \<le> int (shape1 arr)) lengths"
  shows "\<exists>vocab out. np2vocab arr lengths (int (shape0 arr)) = Inr vocab
     \<and> vocab2np PAD_ID vocab = Inr out
     \<and> shape0 out = shape0 arr \<and> wf_ndarray out
     \<and> (\<forall>i<shape0 arr. lengths ! i \<le> int (shape1 out)
          \<and> (\<forall>j<shape1 out. rows out ! i ! j
                = (if int j < lengths ! i then rows arr ! i ! j else PAD_ID)))"
proof -
  define v where "v = map (\<lambda>i. take (nat (lengths ! i)) (rows arr ! i)) [0..<shape0 arr]"
  have lv: "length v = shape0 arr" by (simp add: v_def)
  have vi: "v ! i = take (nat (lengths ! i)) (rows arr ! i)"
    and li: "int (length (v ! i)) = lengths ! i" if "i < shape0 arr" for i
    using that assms by (auto simp add: v_def wf_ndarray_def list_all_length)
  from np2vocab_eq [OF assms] have a: "np2vocab arr lengths (int (shape0 arr)) = Inr v"
    by (simp add: v_def)
  from vocab2np_cells [of PAD_ID v] obtain out where b: "vocab2np PAD_ID v = Inr out"
    and c: "shape0 out = length v" and wf: "wf_ndarray out"
    and cells: "\<forall>i<length v. length (v ! i) \<le> shape1 out
          \<and> (\<forall>j<shape1 out. rows out ! i ! j = (if j < length (v ! i) then v ! i ! j else PAD_ID))"
    by blast
  have "lengths ! i \<le> int (shape1 out)
      \<and> (\<forall>j<shape1 out. rows out ! i ! j
            = (if int j < lengths ! i then rows arr ! i ! j else PAD_ID))" if i: "i < shape0 arr" for i
  proof (intro conjI allI impI)
    from i lv cells have le: "length (v ! i) \<le> shape1 out" by simp
    with li [OF i] show "lengths ! i \<le> int (shape1 out)" by linarith
    fix j assume j: "j < shape1 out"
    from i lv cells j have e: "rows out ! i ! j = (if j < length (v ! i) then v ! i ! j else PAD_ID)"
      by simp
    from li [OF i] have iff: "int j < lengths ! i \<longleftrightarrow> j < length (v ! i)" by linarith
    show "rows out ! i ! j = (if int j < lengths ! i then rows arr ! i ! j else PAD_ID)"
      unfolding e iff using vi [OF i] by simp
  qed
  with a b c lv wf show ?thesis by auto
qed

theorem np2vocab_vocab2np_round_trip_witness:
  "wf_ndarray \<lparr> shape0 = 2, shape1 = 3, rows = [[1, 2, 0], [4, 0, 0]] \<rparr>
   \<and> length [2, 1 :: int] = shape0 \<lparr> shape0 = 2, shape1 = 3, rows = [[1, 2, 0], [4, 0, 0]] \<rparr>
   \<and> list_all (\<lambda>l. 0 \<le> l \<and> l \<le> int (shape1 \<lparr> shape0 = 2, shape1 = 3, rows = [[1, 2, 0], [4, 0, 0]] \<rparr>))
        [2, 1]
   \<and> np2vocab \<lparr> shape0 = 2, shape1 = 3, rows = [[1, 2, 0], [4, 0, 0]] \<rparr> [2, 1] 2
       = Inr [[1, 2], [4]]
   \<and> vocab2np 0 [[1, 2], [4]] = Inr \<lparr> shape0 = 2, shape1 = 2, rows = [[1, 2], [4, 0]] \<rparr>"
proof -
  let ?arr = "\<lparr> shape0 = 2, shape1 = 3, rows = [[1, 2, 0], [4, 0, 0]] \<rparr>"
  have h: "wf_ndarray ?arr" "length [2, 1 :: int] = shape0 ?arr"
    "list_all (\<lambda>l. 0 \<le> l \<and> l \<le> int (shape1 ?arr)) [2, 1]"
    by (simp_all add: wf_ndarray_def)
  from np2vocab_vocab2np_round_trip [OF h, of 0]
  obtain vocab out where r: "np2vocab ?arr [2, 1] (int (shape0 ?arr)) = Inr vocab"
    "vocab2np 0 vocab = Inr out" by blast
  have v: "np2vocab ?arr [2, 1] 2 = Inr [[1, 2], [4]]"
    by code_simp
  have o: "vocab2np 0 [[1, 2], [4]] = Inr \<lparr> shape0 = 2, shape1 = 2, rows = [[1, 2], [4, 0]] \<rparr>"
    by code_simp
  from h r v o show ?thesis by simp
qed

text \<open>
  Claim C8. \<open>get_action\<close> with an id below 0 or not below the size of the action space, and
  \<open>get_edge\<close> with an id the node has not acted with, return an error to the caller
  (\<open>ValueError\<close>, or \<open>OverflowError\<close> for an id that no \<^verbatim>\<open>long\<close> holds) and leave the action
  space and the node as they were.
\<close>

theorem failed_lookups_raise:
  assumes "a_id < 0 \<or> as_size aspace \<le> a_id" and "\<not> has_acted node e_id"
  shows "get_action aspace a_id
           = (Inl (if fits_long a_id then ValueError else OverflowError), aspace)
     \<and> get_edge node e_id
           = (Inl (if fits_long e_id then ValueError else OverflowError), node)"
  using assms by (auto simp add: get_action_def get_edge_def)

theorem failed_lookups_raise_witness:
  "((5::int) < 0 \<or> as_size [\<lparr> action_id = 0, before_id = 1, after_id = 2 \<rparr>] \<le> 5)
   \<and> \<not> has_acted \<lparr> vocab_i = [[1, 2]], dist_to_end = 0, node_done = False,
                    edges = [3 \<mapsto> (1, 0)] \<rparr> 4
   \<and> get_action [\<lparr> action_id = 0, before_id = 1, after_id = 2 \<rparr>] 5
       = (Inl ValueError, [\<lparr> action_id = 0, before_id = 1, after_id = 2 \<rparr>])
   \<and> get_edge \<lparr> vocab_i = [[1, 2]], dist_to_end = 0, node_done = False,
                 edges = [3 \<mapsto> (1, 0)] \<rparr> 4
       = (Inl ValueError, \<lparr> vocab_i = [[1, 2]], dist_to_end = 0, node_done = False,
                 edges = [3 \<mapsto> (1, 0)] \<rparr>)"
proof -
  have h: "(5::int) < 0 \<or> as_size [\<lparr> action_id = 0, before_id = 1, after_id = 2 \<rparr>] \<le> 5"
    "\<not> has_acted \<lparr> vocab_i = [[1, 2]], dist_to_end = 0, node_done = False,
                    edges = [3 \<mapsto> (1, 0)] \<rparr> 4"
    by (simp_all add: as_size_def has_acted_def)
  have f: "fits_long 5" "fits_long 4" by (simp_all add: fits_long_def)
  from failed_lookups_raise [OF h] h f show ?thesis by simp
qed

section \<open>The transposition table\<close>

lemma fresh_fields:
  "parents (TreeNode ed ws) = []" "children (TreeNode ed ws) = []"
  "parents (TreeNode_stopped ed ws st) = []" "children (TreeNode_stopped ed ws st) = []"
  by (simp_all add: TreeNode_def TreeNode_stopped_def common_init_def BaseNode_def Let_def)

lemma delete_fresh:
  assumes "parents n = []" "children n = []"
  shows "delete_node (h @ [Some n]) (length h) = Inr (h @ [None])"
  using assms
  by (simp add: delete_node_def disconnect_from_parents_def disconnect_from_children_def
      node_at_def store_def then_do_def)

lemma get_tree_node_found:
  assumes "map_of (t_table s) ws = Some q"
  shows "get_tree_node ed s ws = Inr (q, s\<lparr> nodes := nodes s @ [None] \<rparr>)"
    and "get_tree_node_stopped ed s ws st = Inr (q, s\<lparr> nodes := nodes s @ [None] \<rparr>)"
  using assms
  by (simp_all add: get_tree_node_def get_tree_node_stopped_def trie_get_def Let_def
      delete_fresh fresh_fields then_do_def)

lemma get_tree_node_new:
  assumes "map_of (t_table s) ws = None"
  shows "get_tree_node ed s ws = Inr (length (nodes s),
           \<lparr> nodes = nodes s @ [Some (TreeNode ed ws)], t_table = t_table s @ [(ws, length (nodes s))] \<rparr>)"
    and "get_tree_node_stopped ed s ws st = Inr (length (nodes s),
           \<lparr> nodes = nodes s @ [Some (TreeNode_stopped ed ws st)],
             t_table = t_table s @ [(ws, length (nodes s))] \<rparr>)"
  using assms
  by (simp_all add: get_tree_node_def get_tree_node_stopped_def trie_get_def Let_def)

lemma get_tree_node_keeps:
  assumes "map_of (t_table s) ws = Some q"
  shows "get_tree_node ed s ws' = Inr (p, s') \<Longrightarrow> map_of (t_table s') ws = Some q"
    and "get_tree_node_stopped ed s ws' st = Inr (p, s') \<Longrightarrow> map_of (t_table s') ws = Some q"
proof -
  show "get_tree_node ed s ws' = Inr (p, s') \<Longrightarrow> map_of (t_table s') ws = Some q"
  proof (cases "map_of (t_table s) ws'")
    case None
    assume "get_tree_node ed s ws' = Inr (p, s')"
    with get_tree_node_new(1) [OF None, of ed] assms show ?thesis by auto
  next
    case (Some r)
    assume "get_tree_node ed s ws' = Inr (p, s')"
    with get_tree_node_found(1) [OF Some, of ed] assms show ?thesis by auto
  qed
  show "get_tree_node_stopped ed s ws' st = Inr (p, s') \<Longrightarrow> map_of (t_table s') ws = Some q"
  proof (cases "map_of (t_table s) ws'")
    case None
    assume "get_tree_node_stopped ed s ws' st = Inr (p, s')"
    with get_tree_node_new(2) [OF None, of ed st] assms show ?thesis by auto
  next
    case (Some r)
    assume "get_tree_node_stopped ed s ws' st = Inr (p, s')"
    with get_tree_node_found(2) [OF Some, of ed st] assms show ?thesis by auto
  qed
qed

lemma get_tree_nodes_keeps:
  "map_of (t_table s) ws = Some q \<Longrightarrow> get_tree_nodes ed s calls = Inr s'
     \<Longrightarrow> map_of (t_table s') ws = Some q"
proof (induction calls arbitrary: s)
  case Nil
  then show ?case by simp
next
  case (Cons call calls)
  obtain ws' o' where call: "call = (ws', o')" by (cases call)
  show ?case
  proof (cases o')
    case None
    with Cons.prems(2) call obtain p s1 where c: "get_tree_node ed s ws' = Inr (p, s1)"
      and r: "get_tree_nodes ed s1 calls = Inr s'"
      by (auto simp: then_do_def split: sum.splits)
    from get_tree_node_keeps(1) [OF Cons.prems(1) c] have "map_of (t_table s1) ws = Some q" .
    from Cons.IH [OF this r] show ?thesis .
  next
    case (Some st)
    with Cons.prems(2) call obtain p s1 where c: "get_tree_node_stopped ed s ws' st = Inr (p, s1)"
      and r: "get_tree_nodes ed s1 calls = Inr s'"
      by (auto simp: then_do_def split: sum.splits)
    from get_tree_node_keeps(2) [OF Cons.prems(1) c] have "map_of (t_table s1) ws = Some q" .
    from Cons.IH [OF this r] show ?thesis .
  qed
qed

lemma get_tree_node_enters:
  "\<exists>p s1. get_tree_node ed s ws = Inr (p, s1) \<and> map_of (t_table s1) ws = Some p"
proof (cases "map_of (t_table s) ws")
  case None
  from get_tree_node_new(1) [OF None, of ed] None show ?thesis by (simp add: map_add_def)
next
  case (Some q)
  from get_tree_node_found(1) [OF Some, of ed] Some show ?thesis by simp
qed


text \<open>
  Claim C6. A call of \<open>get_tree_node\<close> returns a node that is then the canonical one of its
  word sequence. If a canonical node was there already, it is the one returned, the
  table is unchanged, and the candidate built for the call is freed. After any run of
  further calls, a call of either overload with the same word sequence returns the same
  address, leaves the table and its size unchanged, and frees its candidate.
\<close>

theorem get_tree_node_idempotent:
  "\<exists>p s1. get_tree_node ed s ws = Inr (p, s1)
     \<and> (\<forall>q. map_of (t_table s) ws = Some q
            \<longrightarrow> p = q \<and> t_table s1 = t_table s \<and> nodes s1 = nodes s @ [None])
     \<and> (\<forall>calls s2. get_tree_nodes ed s1 calls = Inr s2 \<longrightarrow>
          (\<exists>s3. get_tree_node ed s2 ws = Inr (p, s3)
             \<and> t_table s3 = t_table s2 \<and> trie_size (t_table s3) = trie_size (t_table s2)
             \<and> nodes s3 = nodes s2 @ [None])
        \<and> (\<forall>st. \<exists>s3. get_tree_node_stopped ed s2 ws st = Inr (p, s3)
             \<and> t_table s3 = t_table s2 \<and> trie_size (t_table s3) = trie_size (t_table s2)
             \<and> nodes s3 = nodes s2 @ [None]))"
proof -
  from get_tree_node_enters [of ed s ws] obtain p s1
    where first: "get_tree_node ed s ws = Inr (p, s1)" and canon: "map_of (t_table s1) ws = Some p"
    by blast
  have found: "p = q \<and> t_table s1 = t_table s \<and> nodes s1 = nodes s @ [None]"
    if "map_of (t_table s) ws = Some q" for q
    using get_tree_node_found(1) [OF that, of ed] first by auto
  have again: "(\<exists>s3. get_tree_node ed s2 ws = Inr (p, s3)
             \<and> t_table s3 = t_table s2 \<and> trie_size (t_table s3) = trie_size (t_table s2)
             \<and> nodes s3 = nodes s2 @ [None])
        \<and> (\<forall>st. \<exists>s3. get_tree_node_stopped ed s2 ws st = Inr (p, s3)
             \<and> t_table s3 = t_table s2 \<and> trie_size (t_table s3) = trie_size (t_table s2)
             \<and> nodes s3 = nodes s2 @ [None])"
    if run: "get_tree_nodes ed s1 calls = Inr s2" for calls s2
  proof -
    from get_tree_nodes_keeps [OF canon run] have c2: "map_of (t_table s2) ws = Some p" .
    from get_tree_node_found [OF c2, of ed] show ?thesis by simp
  qed
  from first found again show ?thesis by blast
qed

theorem get_tree_node_idempotent_witness:
  "get_tree_node (\<lambda>w order. 1) fresh_state [7, 8]
     = Inr (0, \<lparr> nodes = [Some (TreeNode (\<lambda>w order. 1) [7, 8])], t_table = [([7, 8], 0)] \<rparr>)
   \<and> get_tree_nodes (\<lambda>w order. 1)
        \<lparr> nodes = [Some (TreeNode (\<lambda>w order. 1) [7, 8])], t_table = [([7, 8], 0)] \<rparr>
        [([9], Some True)]
     = Inr \<lparr> nodes = [Some (TreeNode (\<lambda>w order. 1) [7, 8]),
                       Some (TreeNode_stopped (\<lambda>w order. 1) [9] True)],
             t_table = [([7, 8], 0), ([9], 1)] \<rparr>
   \<and> get_tree_node (\<lambda>w order. 1)
        \<lparr> nodes = [Some (TreeNode (\<lambda>w order. 1) [7, 8]),
                    Some (TreeNode_stopped (\<lambda>w order. 1) [9] True)],
          t_table = [([7, 8], 0), ([9], 1)] \<rparr> [7, 8]
     = Inr (0, \<lparr> nodes = [Some (TreeNode (\<lambda>w order. 1) [7, 8]),
                    Some (TreeNode_stopped (\<lambda>w order. 1) [9] True), None],
          t_table = [([7, 8], 0), ([9], 1)] \<rparr>)"
proof -
  let ?ed = "\<lambda>(w::addr) (order::nat). 1::real"
  let ?s1 = "\<lparr> nodes = [Some (TreeNode ?ed [7, 8])], t_table = [([7, 8], 0)] \<rparr>"
  let ?s2 = "\<lparr> nodes = [Some (TreeNode ?ed [7, 8]), Some (TreeNode_stopped ?ed [9] True)],
          t_table = [([7, 8], 0), ([9], 1)] \<rparr>"
  have a: "get_tree_node ?ed fresh_state [7, 8] = Inr (0, ?s1)"
    by (simp add: fresh_state_def get_tree_node_def trie_get_def)
  have b: "get_tree_nodes ?ed ?s1 [([9], Some True)] = Inr ?s2"
    by (simp add: get_tree_node_stopped_def trie_get_def then_do_def)
  from get_tree_node_idempotent [of ?ed fresh_state "[7, 8]"]
  obtain p s1 where first: "get_tree_node ?ed fresh_state [7, 8] = Inr (p, s1)"
    and later: "\<And>calls s2. get_tree_nodes ?ed s1 calls = Inr s2 \<Longrightarrow>
          \<exists>s3. get_tree_node ?ed s2 [7, 8] = Inr (p, s3)
             \<and> t_table s3 = t_table s2 \<and> trie_size (t_table s3) = trie_size (t_table s2)
             \<and> nodes s3 = nodes s2 @ [None]"
    by blast
  from first a have ps: "p = 0" "s1 = ?s1" by simp_all
  from later [of "[([9], Some True)]" ?s2] b
  obtain s3 where c: "get_tree_node ?ed ?s2 [7, 8] = Inr (0, s3)"
    and t: "t_table s3 = t_table ?s2" and n: "nodes s3 = nodes ?s2 @ [None]"
    unfolding ps by blast
  from t n have "s3 = \<lparr> nodes = [Some (TreeNode ?ed [7, 8]),
                    Some (TreeNode_stopped ?ed [9] True), None],
          t_table = [([7, 8], 0), ([9], 1)] \<rparr>"
    by (cases s3) simp
  with a b c show ?thesis by simp
qed

section \<open>Pruning\<close>


lemma length_store [simp]: "length (store h a n) = length h"
  by (simp add: store_def)

























subsection \<open>A second call changes nothing\<close>






subsection \<open>The count stays the number of unpruned entries\<close>







subsection \<open>Calls on a store that satisfies the invariants\<close>













end
